theory Spec2Isabelle
  imports Complex_Main "HOL-Library.Sublist"
begin

section \<open>JavaScript values used by the OTP engine\<close>

text \<open>
  Strings are byte lists. The engine renders numbers into strings
  (\<^verbatim>\<open>Number.prototype.toString\<close>, template literals) and reads them back
  (\<^verbatim>\<open>parseInt\<close>); both directions are modelled on decimal digits. \<open>digit_char\<close> is only
  applied to numbers below 10.
\<close>

definition digit_char :: "nat \<Rightarrow> char" where
  "digit_char d = ''0123456789'' ! d"

definition is_digit :: "char \<Rightarrow> bool" where
  "is_digit c = (c \<in> set ''0123456789'')"

definition digit_val :: "char \<Rightarrow> nat" where
  "digit_val c = of_char c - 48"

fun show_nat :: "nat \<Rightarrow> string" where
  "show_nat n = (if n < 10 then [digit_char n] else show_nat (n div 10) @ [digit_char (n mod 10)])"

declare show_nat.simps [simp del]

text \<open>\<^verbatim>\<open>toString\<close> of an integral number: decimal digits, a minus sign when negative.\<close>

definition show_int :: "int \<Rightarrow> string" where
  "show_int i = (if i < 0 then CHR ''-'' # show_nat (nat (- i)) else show_nat (nat i))"

definition dec_val :: "string \<Rightarrow> nat" where
  "dec_val ds = foldl (\<lambda>a c. 10 * a + digit_val c) 0 ds"

section \<open>Double-precision arithmetic\<close>

text \<open>
  A JavaScript number is an IEEE 754 binary64 value, and \<^verbatim>\<open>*\<close> and \<^verbatim>\<open>+\<close> return the exact
  result rounded to the nearest such value, ties to the even significand. A value is a real
  number here, and \<open>round_double\<close> is that rounding: \<open>binade x\<close> is the exponent \<open>e\<close> with
  \<open>2\<^sup>e \<le> x < 2\<^sup>e\<^sup>+\<^sup>1\<close>, not below the exponent -1022 of the subnormal numbers, and the
  neighbouring values of \<open>x\<close> are the multiples of \<open>2\<^sup>e\<^sup>-\<^sup>5\<^sup>2\<close>. Results of magnitude
  \<open>2\<^sup>1\<^sup>0\<^sup>2\<^sup>4\<close> or more (\<^verbatim>\<open>Infinity\<close>) are not modelled; the generator stays below \<open>2\<^sup>2\<^sup>0\<close>.
\<close>

fun log2_floor :: "nat \<Rightarrow> nat" where
  "log2_floor n = (if n < 2 then 0 else Suc (log2_floor (n div 2)))"

declare log2_floor.simps [simp del]

definition binade :: "real \<Rightarrow> int" where
  "binade x =
     (if 1 \<le> x then int (log2_floor (nat \<lfloor>x\<rfloor>))
      else max (- 1022) (- int (log2_floor (nat \<lceil>1 / x\<rceil> - 1)) - 1))"

definition round_half_even :: "real \<Rightarrow> int" where
  "round_half_even y =
     (let f = \<lfloor>y\<rfloor>; d = y - of_int f
      in if d < 1 / 2 then f else if 1 / 2 < d then f + 1 else if even f then f else f + 1)"

definition round_pos :: "real \<Rightarrow> real" where
  "round_pos x = (let u = 2 powi (binade x - 52) in of_int (round_half_even (x / u)) * u)"

definition round_double :: "real \<Rightarrow> real" where
  "round_double x = (if x = 0 then 0 else if x < 0 then - round_pos (- x) else round_pos x)"

text \<open>The binary64 values are the reals that rounding leaves alone.\<close>

definition is_double :: "real \<Rightarrow> bool" where
  "is_double x = (round_double x = x)"

section \<open>Code generator\<close>

text \<open>
  \<^verbatim>\<open>generateOTP(): string { return Math.floor(100000 + Math.random() * 900000).toString(); }\<close>
  The value of \<^verbatim>\<open>Math.random()\<close> is the parameter \<open>r\<close>, a binary64 value with \<open>0 \<le> r < 1\<close>.
  The product is rounded, then the sum is rounded; \<^verbatim>\<open>Math.floor\<close> is exact, and \<^verbatim>\<open>toString\<close>
  of an integral number below \<open>10\<^sup>2\<^sup>1\<close> prints its decimal digits.
\<close>

definition generateOTP :: "real \<Rightarrow> string" where
  "generateOTP r = show_int \<lfloor>round_double (100000 + round_double (r * 900000))\<rfloor>"

section \<open>Reading numbers: \<^verbatim>\<open>parseInt\<close>\<close>

text \<open>
  A JavaScript number as far as the engine uses one: an integer or \<^verbatim>\<open>NaN\<close>. The engine only
  compares counters with 3 and subtracts small integers, where doubles are exact; the
  rounding of a very long digit string does not change the comparison with 3.
\<close>

datatype number = NaN | Num int

definition is_ws :: "char \<Rightarrow> bool" where
  "is_ws c = (c \<in> set [CHR '' '', CHR 0x09, CHR 0x0A, CHR 0x0B, CHR 0x0C, CHR 0x0D])"

definition is_hex_digit :: "char \<Rightarrow> bool" where
  "is_hex_digit c = (c \<in> set ''0123456789abcdefABCDEF'')"

definition hex_digit_val :: "char \<Rightarrow> nat" where
  "hex_digit_val c =
     (if c \<in> set ''abcdef'' then of_char c - 87
      else if c \<in> set ''ABCDEF'' then of_char c - 55
      else digit_val c)"

definition hex_val :: "string \<Rightarrow> nat" where
  "hex_val ds = foldl (\<lambda>a c. 16 * a + hex_digit_val c) 0 ds"

text \<open>
  \<^verbatim>\<open>parseInt(s)\<close> with no radix: leading white space is skipped (the ASCII white space
  characters here), then an optional sign, then a \<^verbatim>\<open>0x\<close> prefix selects radix 16, then the
  longest run of digits is read; no digit at all gives \<^verbatim>\<open>NaN\<close>.
\<close>

definition parseInt :: "string \<Rightarrow> number" where
  "parseInt s =
     (let s1 = dropWhile is_ws s;
          neg = (take 1 s1 = ''-'');
          s2 = (if take 1 s1 = ''-'' \<or> take 1 s1 = ''+'' then drop 1 s1 else s1);
          hex = (take 2 s2 = ''0x'' \<or> take 2 s2 = ''0X'');
          s3 = (if hex then drop 2 s2 else s2);
          ds = takeWhile (if hex then is_hex_digit else is_digit) s3;
          v = int (if hex then hex_val ds else dec_val ds)
      in if ds = [] then NaN else Num (if neg then - v else v))"

text \<open>\<^verbatim>\<open>a >= b\<close>: false when \<open>a\<close> is \<^verbatim>\<open>NaN\<close>.\<close>

definition num_ge :: "number \<Rightarrow> int \<Rightarrow> bool" where
  "num_ge a b = (case a of NaN \<Rightarrow> False | Num n \<Rightarrow> b \<le> n)"

definition num_add :: "number \<Rightarrow> int \<Rightarrow> number" where
  "num_add a b = (case a of NaN \<Rightarrow> NaN | Num n \<Rightarrow> Num (n + b))"

text \<open>\<^verbatim>\<open>b - a\<close> for an integer \<open>b\<close>.\<close>

definition num_rsub :: "int \<Rightarrow> number \<Rightarrow> number" where
  "num_rsub b a = (case a of NaN \<Rightarrow> NaN | Num n \<Rightarrow> Num (b - n))"

definition num_show :: "number \<Rightarrow> string" where
  "num_show a = (case a of NaN \<Rightarrow> ''NaN'' | Num n \<Rightarrow> show_int n)"

section \<open>Secret store\<close>

text \<open>
  The store is a Redis server reached through \<^verbatim>\<open>redisClient\<close>. A database maps a key to a string
  value and its remaining time to live in seconds (\<open>None\<close>: the key never expires). The four
  commands the engine issues are \<^verbatim>\<open>GET\<close>, \<^verbatim>\<open>SETEX\<close>, \<^verbatim>\<open>DEL\<close> and \<^verbatim>\<open>INCR\<close>.
\<close>

record entry =
  val :: string
  ttl :: "nat option"

type_synonym redis = "string \<rightharpoonup> entry"

datatype error = RedisNotConnected | NotAnInteger | IncrOverflow

definition redis_get :: "redis \<Rightarrow> string \<Rightarrow> string option" where
  "redis_get db k = map_option val (db k)"

definition redis_setEx :: "redis \<Rightarrow> string \<Rightarrow> nat \<Rightarrow> string \<Rightarrow> redis" where
  "redis_setEx db k seconds v = db(k \<mapsto> \<lparr>val = v, ttl = Some seconds\<rparr>)"

definition redis_del :: "redis \<Rightarrow> string \<Rightarrow> redis" where
  "redis_del db k = db(k := None)"

text \<open>
  \<^verbatim>\<open>INCR\<close> reads the value as a signed 64-bit integer in canonical decimal form: \<^verbatim>\<open>0\<close>, or an
  optional minus sign, a digit from 1 to 9 and further digits, at most 20 characters. Anything
  else is the error "value is not an integer or out of range".
\<close>

definition string2ll :: "string \<Rightarrow> int option" where
  "string2ll s =
     (if s = [] \<or> 21 \<le> length s then None
      else if s = ''0'' then Some 0
      else
        (let neg = (take 1 s = ''-'');
             ds = (if neg then drop 1 s else s);
             v = int (dec_val ds)
         in if ds = [] then None
            else if \<not> (is_digit (hd ds) \<and> hd ds \<noteq> CHR ''0'') then None
            else if \<not> list_all is_digit (tl ds) then None
            else if neg then (if v \<le> 2 ^ 63 then Some (- v) else None)
            else (if v \<le> 2 ^ 63 - 1 then Some v else None)))"

text \<open>
  \<^verbatim>\<open>INCR\<close>: an absent key counts as 0 and is created without expiry; an existing key keeps its
  time to live; the new value is stored in decimal.
\<close>

definition redis_incr :: "redis \<Rightarrow> string \<Rightarrow> error + redis" where
  "redis_incr db k =
     (case db k of
        None \<Rightarrow> Inr (db(k \<mapsto> \<lparr>val = show_int 1, ttl = None\<rparr>))
      | Some e \<Rightarrow>
          (case string2ll (val e) of
             None \<Rightarrow> Inl NotAnInteger
           | Some n \<Rightarrow>
               if n = 2 ^ 63 - 1 then Inl IncrOverflow
               else Inr (db(k \<mapsto> e\<lparr>val := show_int (n + 1)\<rparr>))))"

section \<open>OTP service\<close>

record OTPService =
  redisClient :: "redis option"

definition OTP_EXPIRY :: nat where
  "OTP_EXPIRY = 600"

definition MAX_ATTEMPTS :: int where
  "MAX_ATTEMPTS = 3"

definition RATE_LIMIT_WINDOW :: nat where
  "RATE_LIMIT_WINDOW = 3600"

definition MAX_OTP_PER_HOUR :: int where
  "MAX_OTP_PER_HOUR = 3"

text \<open>The three keys of an identifier, as the template literals build them.\<close>

definition otpKey :: "string \<Rightarrow> string" where
  "otpKey identifier = ''otp:'' @ identifier"

definition attemptsKey :: "string \<Rightarrow> string" where
  "attemptsKey identifier = ''otp:attempts:'' @ identifier"

definition rateLimitKey :: "string \<Rightarrow> string" where
  "rateLimitKey identifier = ''otp:ratelimit:'' @ identifier"

text \<open>
  \<^verbatim>\<open>checkRateLimit\<close> returns \<^verbatim>\<open>{ allowed: true }\<close> or \<^verbatim>\<open>{ allowed: false, message }\<close>.
\<close>

datatype RateLimitResult = Allowed | Denied string

fun allowed :: "RateLimitResult \<Rightarrow> bool" where
  "allowed Allowed = True"
| "allowed (Denied m) = False"

record VerifyResult =
  valid :: bool
  v_message :: string

text \<open>
  Every method that talks to the store returns its outcome (a thrown error on the left) and
  the service afterwards. The test \<^verbatim>\<open>count && ...\<close> is false for an absent key and for the
  empty string.
\<close>

definition checkRateLimit :: "OTPService \<Rightarrow> string \<Rightarrow> (error + RateLimitResult) \<times> OTPService" where
  "checkRateLimit svc identifier =
     (case redisClient svc of
        None \<Rightarrow> (Inl RedisNotConnected, svc)
      | Some db \<Rightarrow>
          (case redis_get db (rateLimitKey identifier) of
             None \<Rightarrow> (Inr Allowed, svc)
           | Some count \<Rightarrow>
               if count \<noteq> [] \<and> num_ge (parseInt count) MAX_OTP_PER_HOUR
               then (Inr (Denied ''Rate limit exceeded. Maximum 3 OTPs per hour.''), svc)
               else (Inr Allowed, svc)))"

definition incrementRateLimit :: "OTPService \<Rightarrow> string \<Rightarrow> (error + unit) \<times> OTPService" where
  "incrementRateLimit svc identifier =
     (case redisClient svc of
        None \<Rightarrow> (Inl RedisNotConnected, svc)
      | Some db \<Rightarrow>
          (let current = redis_get db (rateLimitKey identifier) in
           if current = None \<or> current = Some []
           then (Inr (),
                 svc\<lparr>redisClient := Some (redis_setEx db (rateLimitKey identifier) RATE_LIMIT_WINDOW ''1'')\<rparr>)
           else
             (case redis_incr db (rateLimitKey identifier) of
                Inl e \<Rightarrow> (Inl e, svc)
              | Inr db' \<Rightarrow> (Inr (), svc\<lparr>redisClient := Some db'\<rparr>))))"

text \<open>
  \<^verbatim>\<open>hashOTP\<close> is the hexadecimal SHA-256 digest of the library; it is a parameter of the
  functions that hash.
\<close>

definition storeOTP ::
  "(string \<Rightarrow> string) \<Rightarrow> OTPService \<Rightarrow> string \<Rightarrow> string \<Rightarrow> (error + unit) \<times> OTPService" where
  "storeOTP hashOTP svc identifier otp =
     (case redisClient svc of
        None \<Rightarrow> (Inl RedisNotConnected, svc)
      | Some db \<Rightarrow>
          (let hashedOTP = hashOTP otp;
               db1 = redis_setEx db (otpKey identifier) OTP_EXPIRY hashedOTP;
               db2 = redis_setEx db1 (attemptsKey identifier) OTP_EXPIRY ''0''
           in incrementRateLimit (svc\<lparr>redisClient := Some db2\<rparr>) identifier))"

text \<open>\<^verbatim>\<open>attemptsStr ? parseInt(attemptsStr) : 0\<close>\<close>

definition read_attempts :: "string option \<Rightarrow> number" where
  "read_attempts attemptsStr =
     (case attemptsStr of None \<Rightarrow> Num 0 | Some s \<Rightarrow> if s = [] then Num 0 else parseInt s)"

definition verifyOTP ::
  "(string \<Rightarrow> string) \<Rightarrow> OTPService \<Rightarrow> string \<Rightarrow> string \<Rightarrow> (error + VerifyResult) \<times> OTPService" where
  "verifyOTP hashOTP svc identifier otp =
     (case redisClient svc of
        None \<Rightarrow> (Inl RedisNotConnected, svc)
      | Some db \<Rightarrow>
          (let storedHash = redis_get db (otpKey identifier) in
           if storedHash = None \<or> storedHash = Some []
           then (Inr \<lparr>valid = False, v_message = ''OTP expired or not found''\<rparr>, svc)
           else
             (let attempts = read_attempts (redis_get db (attemptsKey identifier)) in
              if num_ge attempts MAX_ATTEMPTS
              then (Inr \<lparr>valid = False, v_message = ''Maximum verification attempts exceeded''\<rparr>,
                    svc\<lparr>redisClient :=
                      Some (redis_del (redis_del db (otpKey identifier)) (attemptsKey identifier))\<rparr>)
              else if Some (hashOTP otp) = storedHash
              then (Inr \<lparr>valid = True, v_message = ''OTP verified successfully''\<rparr>,
                    svc\<lparr>redisClient :=
                      Some (redis_del (redis_del db (otpKey identifier)) (attemptsKey identifier))\<rparr>)
              else
                (case redis_incr db (attemptsKey identifier) of
                   Inl e \<Rightarrow> (Inl e, svc)
                 | Inr db' \<Rightarrow>
                     (Inr \<lparr>valid = False,
                           v_message = ''Invalid OTP. ''
                             @ num_show (num_rsub MAX_ATTEMPTS (num_add attempts 1))
                             @ '' attempt(s) remaining''\<rparr>,
                      svc\<lparr>redisClient := Some db'\<rparr>)))))"

section \<open>Channels and the messaging service\<close>

record SendResult =
  success :: bool
  message :: string
  data :: "string option"

text \<open>
  A provider is an outbound call to a vendor. Its answer is a function of the arguments of
  \<^verbatim>\<open>sendOTP\<close>; each invocation is recorded as a \<open>provider_call\<close>, so that the calls a request
  makes can be counted.
\<close>

record ISMSProvider =
  sms_getProviderName :: string
  sms_sendOTP :: "string \<Rightarrow> string \<Rightarrow> SendResult"

record IEmailProvider =
  email_getProviderName :: string
  email_sendOTP :: "string \<Rightarrow> string \<Rightarrow> string option \<Rightarrow> SendResult"

datatype provider_call =
  SmsCall string string
| EmailCall string string "string option"

record SMSService =
  sms_activeProvider :: "ISMSProvider option"

record EmailService =
  email_activeProvider :: "IEmailProvider option"

definition SMSService_sendOTP ::
  "SMSService \<Rightarrow> string \<Rightarrow> string \<Rightarrow> SendResult \<times> provider_call list" where
  "SMSService_sendOTP s to otp =
     (case sms_activeProvider s of
        None \<Rightarrow> (\<lparr>success = False, message = ''No SMS provider configured'', data = None\<rparr>, [])
      | Some p \<Rightarrow> (sms_sendOTP p to otp, [SmsCall to otp]))"

definition EmailService_sendOTP ::
  "EmailService \<Rightarrow> string \<Rightarrow> string \<Rightarrow> string option \<Rightarrow> SendResult \<times> provider_call list" where
  "EmailService_sendOTP s to otp brandName =
     (case email_activeProvider s of
        None \<Rightarrow> (\<lparr>success = False, message = ''No email provider configured'', data = None\<rparr>, [])
      | Some p \<Rightarrow> (email_sendOTP p to otp brandName, [EmailCall to otp brandName]))"

datatype channel = SMS | Email

fun channel_str :: "channel \<Rightarrow> string" where
  "channel_str SMS = ''sms''"
| "channel_str Email = ''email''"

record MessagingService =
  smsService :: SMSService
  emailService :: EmailService
  otpService :: OTPService

text \<open>
  \<^verbatim>\<open>MessagingService.sendOTP\<close>. \<open>r\<close> is the value \<^verbatim>\<open>Math.random()\<close> returns inside
  \<^verbatim>\<open>generateOTP\<close>. The development-mode console output is not part of the state.
\<close>

definition sendOTP ::
  "(string \<Rightarrow> string) \<Rightarrow> real \<Rightarrow> MessagingService \<Rightarrow> channel \<Rightarrow> string \<Rightarrow> string option
     \<Rightarrow> (error + SendResult) \<times> MessagingService \<times> provider_call list" where
  "sendOTP hashOTP r ms ch identifier brandName =
     (case checkRateLimit (otpService ms) identifier of
        (Inl e, svc0) \<Rightarrow> (Inl e, ms\<lparr>otpService := svc0\<rparr>, [])
      | (Inr (Denied m), svc0) \<Rightarrow>
          (Inr \<lparr>success = False, message = m, data = None\<rparr>, ms\<lparr>otpService := svc0\<rparr>, [])
      | (Inr Allowed, svc0) \<Rightarrow>
          (let otp = generateOTP r in
           case storeOTP hashOTP svc0 identifier otp of
             (Inl e, svc1) \<Rightarrow> (Inl e, ms\<lparr>otpService := svc1\<rparr>, [])
           | (Inr u, svc1) \<Rightarrow>
               (let (result, calls) =
                      (if ch = SMS then SMSService_sendOTP (smsService ms) identifier otp
                       else EmailService_sendOTP (emailService ms) identifier otp brandName)
                in (Inr (if success result
                         then \<lparr>success = True,
                               message = ''OTP sent successfully via '' @ channel_str ch,
                               data = None\<rparr>
                         else result),
                    ms\<lparr>otpService := svc1\<rparr>, calls))))"

text \<open>\<^verbatim>\<open>MessagingService.verifyOTP\<close> repackages the verifier's result.\<close>

definition MessagingService_verifyOTP ::
  "(string \<Rightarrow> string) \<Rightarrow> MessagingService \<Rightarrow> string \<Rightarrow> string
     \<Rightarrow> (error + SendResult) \<times> MessagingService" where
  "MessagingService_verifyOTP hashOTP ms identifier otp =
     (case verifyOTP hashOTP (otpService ms) identifier otp of
        (Inl e, svc) \<Rightarrow> (Inl e, ms\<lparr>otpService := svc\<rparr>)
      | (Inr result, svc) \<Rightarrow>
          (Inr \<lparr>success = valid result, message = v_message result, data = None\<rparr>,
           ms\<lparr>otpService := svc\<rparr>))"

section \<open>A sample deployment\<close>

text \<open>
  One identifier with a live code record, a stand-in digest and two providers: an SMS vendor
  that accepts every message and a mail transport that refuses every message. The statements
  below are evaluated on it.
\<close>

definition sample_hash :: "string \<Rightarrow> string" where
  "sample_hash otp = ''sha256:'' @ otp"

definition sample_id :: string where
  "sample_id = ''233241234567''"

definition sample_db :: "string \<Rightarrow> string \<Rightarrow> redis" where
  "sample_db attempts count =
     [otpKey sample_id \<mapsto> \<lparr>val = sample_hash ''550000'', ttl = Some 420\<rparr>,
      attemptsKey sample_id \<mapsto> \<lparr>val = attempts, ttl = Some 420\<rparr>,
      rateLimitKey sample_id \<mapsto> \<lparr>val = count, ttl = Some 3000\<rparr>]"

definition sample_sms :: ISMSProvider where
  "sample_sms =
     \<lparr>sms_getProviderName = ''Hubtel'',
      sms_sendOTP = (\<lambda>to otp.
        \<lparr>success = True, message = ''SMS sent successfully via Hubtel'', data = Some ''{}''\<rparr>)\<rparr>"

definition sample_smtp :: IEmailProvider where
  "sample_smtp =
     \<lparr>email_getProviderName = ''SMTP'',
      email_sendOTP = (\<lambda>to otp brandName.
        \<lparr>success = False, message = ''SMTP Error: connection refused'', data = None\<rparr>)\<rparr>"

definition sample_ms :: "redis \<Rightarrow> MessagingService" where
  "sample_ms db =
     \<lparr>smsService = \<lparr>sms_activeProvider = Some sample_sms\<rparr>,
      emailService = \<lparr>email_activeProvider = Some sample_smtp\<rparr>,
      otpService = \<lparr>redisClient = Some db\<rparr>\<rparr>"

section \<open>Decimal rendering: basic facts\<close>


lemma lt10_cases: "d < (10::nat) \<Longrightarrow> d \<in> {0,1,2,3,4,5,6,7,8,9}"
  by auto

lemma digit_char_is_digit: "d < 10 \<Longrightarrow> is_digit (digit_char d)"
  by (drule lt10_cases) (auto simp: is_digit_def digit_char_def)

lemma digit_val_digit_char: "d < 10 \<Longrightarrow> digit_val (digit_char d) = d"
  by (drule lt10_cases) (auto simp: digit_val_def digit_char_def)

lemma digit_char_zero_iff: "d < 10 \<Longrightarrow> digit_char d = CHR ''0'' \<longleftrightarrow> d = 0"
  by (drule lt10_cases) (auto simp: digit_char_def)

lemma show_nat_digits: "c \<in> set (show_nat n) \<Longrightarrow> is_digit c"
proof (induction n rule: show_nat.induct)
  case (1 n)
  show ?case
  proof (cases "n < 10")
    case True
    with "1.prems" show ?thesis
      by (simp add: show_nat.simps [of n] digit_char_is_digit)
  next
    case False
    with "1.prems" "1.IH" show ?thesis
      by (auto simp: show_nat.simps [of n] digit_char_is_digit)
  qed
qed

lemma dec_val_snoc: "dec_val (ds @ [c]) = 10 * dec_val ds + digit_val c"
  by (simp add: dec_val_def)

lemma dec_val_show_nat: "dec_val (show_nat n) = n"
proof (induction n rule: show_nat.induct)
  case (1 n)
  show ?case
  proof (cases "n < 10")
    case True
    then show ?thesis
      by (simp add: show_nat.simps [of n] dec_val_def digit_val_digit_char)
  next
    case False
    with "1.IH" show ?thesis
      by (simp add: show_nat.simps [of n] dec_val_snoc digit_val_digit_char)
  qed
qed

lemma show_nat_nonempty: "show_nat n \<noteq> []"
  by (simp add: show_nat.simps [of n])

lemma hd_show_nat: "0 < n \<Longrightarrow> hd (show_nat n) \<noteq> CHR ''0''"
proof (induction n rule: show_nat.induct)
  case (1 n)
  show ?case
  proof (cases "n < 10")
    case True
    with "1.prems" show ?thesis
      by (simp add: show_nat.simps [of n] digit_char_zero_iff)
  next
    case False
    then have "0 < n div 10" by simp
    with False "1.IH" show ?thesis
      by (simp add: show_nat.simps [of n] show_nat_nonempty)
  qed
qed

lemma length_show_nat: "10 ^ k \<le> n \<Longrightarrow> n < 10 ^ Suc k \<Longrightarrow> length (show_nat n) = Suc k"
proof (induction k arbitrary: n)
  case 0
  then show ?case by (simp add: show_nat.simps [of n])
next
  case (Suc k)
  from Suc.prems have ge: "10 \<le> n"
    by (metis One_nat_def le_trans one_le_numeral one_le_power power_Suc mult.right_neutral mult_le_mono2)
  from Suc.prems have "10 ^ k \<le> n div 10" "n div 10 < 10 ^ Suc k"
    by (simp_all add: less_mult_imp_div_less  div_le_mono2 mult.commute)
  then have "length (show_nat (n div 10)) = Suc k" by (rule Suc.IH)
  with ge show ?case by (simp add: show_nat.simps [of n])
qed



section \<open>Double rounding: binades and nearest integers\<close>

lemma log2_floor_bounds:
  "0 < n \<Longrightarrow> 2 ^ log2_floor n \<le> n \<and> n < 2 ^ Suc (log2_floor n)"
proof (induction n rule: log2_floor.induct)
  case (1 n)
  show ?case
  proof (cases "n < 2")
    case True
    with "1.prems" show ?thesis by (simp add: log2_floor.simps [of n])
  next
    case False
    then have "0 < n div 2" by simp
    with "1.IH" False
    have ih: "2 ^ log2_floor (n div 2) \<le> n div 2" "n div 2 < 2 ^ Suc (log2_floor (n div 2))"
      by simp_all
    have e: "log2_floor n = Suc (log2_floor (n div 2))"
      using False by (simp add: log2_floor.simps [of n])
    have "2 * (n div 2) \<le> n" "n < 2 * (n div 2) + 2" by arith+
    with ih have "2 * 2 ^ log2_floor (n div 2) \<le> n" "n < 2 * 2 ^ Suc (log2_floor (n div 2))"
      by linarith+
    then show ?thesis by (simp add: e)
  qed
qed

lemma two_powi_neg_nat: "(2::real) powi (- int k) = 1 / 2 ^ k"
  by (simp add: power_int_minus field_simps)

lemma two_powi_mono: "a \<le> b \<Longrightarrow> (2::real) powi a \<le> 2 powi b"
  by (rule power_int_increasing) simp_all

lemma two_powi_split: "(2::real) powi (a + b) = 2 powi a * 2 powi b"
  by (rule power_int_add) simp

lemma two_powi_nonneg: "0 \<le> a \<Longrightarrow> (2::real) powi a = of_int (2 ^ nat a)"
  by (simp add: power_int_nonneg_exp)

lemma binade_ge_one:
  assumes "1 \<le> x"
  shows "2 powi binade x \<le> x" and "x < 2 powi (binade x + 1)" and "0 \<le> binade x"
proof -
  let ?n = "nat \<lfloor>x\<rfloor>" and ?k = "log2_floor (nat \<lfloor>x\<rfloor>)"
  from assms have f: "1 \<le> \<lfloor>x\<rfloor>" by simp
  then have n: "0 < ?n" "real ?n = of_int \<lfloor>x\<rfloor>" by simp_all
  from log2_floor_bounds [OF n(1)] have b: "2 ^ ?k \<le> ?n" "?n + 1 \<le> 2 ^ Suc ?k" by simp_all
  have be: "binade x = int ?k" using assms by (simp add: binade_def)
  from b(1) have "(2::real) ^ ?k \<le> real ?n"
    by (metis of_nat_le_iff of_nat_numeral of_nat_power)
  also have "\<dots> \<le> x" by (simp add: n(2))
  finally show "2 powi binade x \<le> x" by (simp add: be)
  have "x < real ?n + 1" by (simp add: n(2))
  also from b(2) have "real ?n + 1 \<le> 2 ^ Suc ?k"
    by (metis of_nat_le_iff of_nat_numeral of_nat_power of_nat_Suc Suc_eq_plus1 of_nat_add of_nat_1)
  finally have "x < 2 ^ Suc ?k" .
  moreover have "int ?k + 1 = int (Suc ?k)" by simp
  ultimately show "x < 2 powi (binade x + 1)"
    unfolding be by (simp only: power_int_of_nat)
  show "0 \<le> binade x" by (simp add: be)
qed

lemma binade_lt_one:
  assumes "0 < x" and "x < 1"
  shows "x < 2 powi (binade x + 1)" and "binade x = - 1022 \<or> 2 powi binade x \<le> x"
    and "- 1022 \<le> binade x"
proof -
  let ?c = "\<lceil>1 / x\<rceil>"
  let ?m = "nat ?c - 1"
  let ?k = "log2_floor ?m"
  let ?e = "- int ?k - 1"
  from assms have q: "1 < 1 / x" by simp
  then have c: "2 \<le> ?c" by (simp add: le_ceiling_iff del: ceiling_divide_eq_div_numeral)
  then have m0: "0 < ?m" by simp
  from c have "int ?m = ?c - 1" by linarith
  then have "real_of_int (int ?m) = of_int (?c - 1)" by (simp only:)
  then have m2: "real ?m = of_int ?c - 1" by simp
  note m = m0 m2
  from log2_floor_bounds [OF m(1)] have b: "2 ^ ?k \<le> ?m" "?m + 1 \<le> 2 ^ Suc ?k" by simp_all
  have be: "binade x = max (- 1022) ?e" using assms by (simp add: binade_def)
  show "- 1022 \<le> binade x" by (simp add: be)
  from b(1) have "(2::real) ^ ?k \<le> real ?m"
    by (metis of_nat_le_iff of_nat_numeral of_nat_power)
  also have "real ?m < 1 / x" unfolding m(2) using ceiling_correct [of "1 / x"] by linarith
  finally have "2 ^ ?k < 1 / x" .
  with assms(1) have "x * 2 ^ ?k < 1" by (simp add: field_simps)
  then have "x < 1 / 2 ^ ?k" by (simp add: field_simps)
  then have "x < 2 powi (?e + 1)" using two_powi_neg_nat [of ?k] by simp
  also have "\<dots> \<le> 2 powi (binade x + 1)" unfolding be by (rule two_powi_mono) simp
  finally show "x < 2 powi (binade x + 1)" .
  show "binade x = - 1022 \<or> 2 powi binade x \<le> x"
  proof (cases "binade x = - 1022")
    case True
    then show ?thesis by simp
  next
    case False
    then have e: "binade x = ?e" unfolding be by (simp add: max_def split: if_splits)
    have "1 / x \<le> of_int ?c" using ceiling_correct [of "1 / x"] by linarith
    also have "\<dots> = real ?m + 1" using m2 by linarith
    also from b(2) have "real ?m + 1 \<le> 2 ^ Suc ?k"
      by (metis of_nat_le_iff of_nat_numeral of_nat_power of_nat_Suc Suc_eq_plus1 of_nat_add of_nat_1)
    finally have "1 / x \<le> 2 ^ Suc ?k" .
    with assms(1) have "1 \<le> x * 2 ^ Suc ?k" by (simp add: field_simps)
    then have le: "1 / 2 ^ Suc ?k \<le> x" by (simp add: field_simps)
    have ee: "?e = - int (Suc ?k)" by simp
    have "2 powi ?e = (1::real) / 2 ^ Suc ?k" unfolding ee by (rule two_powi_neg_nat)
    with le have "2 powi ?e \<le> x" by (simp only:)
    then show ?thesis by (simp add: e)
  qed
qed

lemma binade_upper: "0 < x \<Longrightarrow> x < 2 powi (binade x + 1)"
  using binade_ge_one(2) [of x] binade_lt_one(1) [of x] by (cases "1 \<le> x") simp_all

lemma binade_lower: "0 < x \<Longrightarrow> binade x = - 1022 \<or> 2 powi binade x \<le> x"
  using binade_ge_one(1) [of x] binade_lt_one(2) [of x] by (cases "1 \<le> x") simp_all

lemma binade_min: "0 < x \<Longrightarrow> - 1022 \<le> binade x"
  using binade_ge_one(3) [of x] binade_lt_one(3) [of x] by (cases "1 \<le> x") simp_all

lemma binade_less:
  assumes "0 < x" and "x < 2 powi k" and "- 1022 < k"
  shows "binade x < k"
proof (rule ccontr)
  assume "\<not> binade x < k"
  then have k: "k \<le> binade x" by simp
  with assms(3) binade_lower [OF assms(1)] have "2 powi binade x \<le> x" by simp
  moreover from k have "(2::real) powi k \<le> 2 powi binade x" by (rule two_powi_mono)
  ultimately show False using assms(2) by simp
qed

lemma binade_greater:
  assumes "0 < x" and "2 powi k \<le> x"
  shows "k \<le> binade x"
proof (rule ccontr)
  assume "\<not> k \<le> binade x"
  then have "binade x + 1 \<le> k" by simp
  then have "(2::real) powi (binade x + 1) \<le> 2 powi k" by (rule two_powi_mono)
  with binade_upper [OF assms(1)] assms(2) show False by simp
qed

lemma binade_eq:
  assumes "2 powi k \<le> x" and "x < 2 powi (k + 1)" and "- 1022 \<le> k"
  shows "binade x = k"
proof -
  have "(0::real) < 2 powi k" by simp
  with assms(1) have x: "0 < x" by linarith
  from x assms(2) assms(3) have "binade x < k + 1" by (intro binade_less) simp_all
  moreover from x assms(1) have "k \<le> binade x" by (rule binade_greater)
  ultimately show ?thesis by simp
qed

lemma round_half_even_of_int: "round_half_even (of_int k) = k"
  by (simp add: round_half_even_def)

lemma round_half_even_le:
  assumes "y < of_int k + 1 / 2"
  shows "round_half_even y \<le> k"
proof -
  let ?f = "\<lfloor>y\<rfloor>"
  have f: "of_int ?f \<le> y" "y < of_int ?f + 1" by linarith+
  from f(1) assms have "of_int ?f < (of_int k + 1 :: real)" by linarith
  then have fk: "?f \<le> k" by linarith
  show ?thesis
  proof (cases "y - of_int ?f < 1 / 2")
    case True
    with fk show ?thesis by (simp add: round_half_even_def)
  next
    case False
    with assms have "of_int ?f < (of_int k :: real)" by linarith
    then have "?f + 1 \<le> k" by linarith
    with fk show ?thesis by (simp add: round_half_even_def Let_def)
  qed
qed

lemma round_half_even_ge:
  assumes "of_int k - 1 / 2 < y"
  shows "k \<le> round_half_even y"
proof -
  let ?f = "\<lfloor>y\<rfloor>"
  have f: "of_int ?f \<le> y" "y < of_int ?f + 1" by linarith+
  from f(2) assms have "(of_int k :: real) < of_int ?f + 2" by linarith
  then have fk: "k \<le> ?f + 1" by linarith
  show ?thesis
  proof (cases "y - of_int ?f \<le> 1 / 2")
    case True
    with assms have "(of_int k :: real) < of_int ?f + 1" by linarith
    then have "k \<le> ?f" by linarith
    then show ?thesis by (simp add: round_half_even_def Let_def)
  next
    case False
    with fk show ?thesis by (simp add: round_half_even_def Let_def)
  qed
qed

lemma round_half_even_err: "\<bar>of_int (round_half_even y) - y\<bar> \<le> 1 / 2"
proof -
  let ?f = "\<lfloor>y\<rfloor>"
  have f: "of_int ?f \<le> y" "y < of_int ?f + 1" by linarith+
  then show ?thesis by (auto simp: round_half_even_def Let_def)
qed

section \<open>Double rounding: grid and error bounds\<close>

lemma round_double_pos:
  "0 < x \<Longrightarrow> round_double x =
     of_int (round_half_even (x / 2 powi (binade x - 52))) * 2 powi (binade x - 52)"
  by (simp add: round_double_def round_pos_def Let_def)

text \<open>A multiple of a power of two not finer than the grid of \<open>x\<close> lies on the grid of \<open>x\<close>.\<close>

lemma on_grid:
  assumes "binade x - 52 \<le> c"
  shows "of_int M * 2 powi c =
           of_int (M * 2 ^ nat (c - (binade x - 52))) * (2::real) powi (binade x - 52)"
proof -
  let ?j = "c - (binade x - 52)"
  from assms have j: "0 \<le> ?j" by simp
  have "(2::real) powi c = 2 powi (?j + (binade x - 52))" by simp
  also have "\<dots> = 2 powi ?j * 2 powi (binade x - 52)" by (rule two_powi_split)
  also have "2 powi ?j = (of_int (2 ^ nat ?j) :: real)" using j by (rule two_powi_nonneg)
  finally show ?thesis by simp
qed

lemma round_double_le_near:
  assumes "0 < x" and "binade x - 52 \<le> c"
      and "x < of_int M * 2 powi c + 2 powi (binade x - 52) / 2"
  shows "round_double x \<le> of_int M * 2 powi c"
proof -
  let ?u = "(2::real) powi (binade x - 52)"
  let ?k = "M * 2 ^ nat (c - (binade x - 52))"
  have u: "0 < ?u" by simp
  have g: "of_int M * 2 powi c = of_int ?k * ?u" using assms(2) by (rule on_grid)
  from assms(3) have "x < (of_int ?k + 1 / 2) * ?u" unfolding g by (simp add: algebra_simps)
  with u have "x / ?u < of_int ?k + 1 / 2" by (simp add: field_simps)
  then have "round_half_even (x / ?u) \<le> ?k" by (rule round_half_even_le)
  then have "(of_int (round_half_even (x / ?u)) :: real) \<le> of_int ?k" by (simp only: of_int_le_iff)
  with u have "of_int (round_half_even (x / ?u)) * ?u \<le> of_int ?k * ?u"
    by (simp add: mult_right_mono)
  then show ?thesis unfolding g round_double_pos [OF assms(1)] .
qed

lemma round_double_le:
  assumes "0 < x" and "binade x - 52 \<le> c" and "x \<le> of_int M * 2 powi c"
  shows "round_double x \<le> of_int M * 2 powi c"
proof -
  have "(0::real) < 2 powi (binade x - 52) / 2" by simp
  with assms(3) have "x < of_int M * 2 powi c + 2 powi (binade x - 52) / 2" by linarith
  with assms(1,2) show ?thesis by (rule round_double_le_near)
qed

lemma round_double_ge:
  assumes "0 < x" and "binade x - 52 \<le> c" and "of_int M * 2 powi c \<le> x"
  shows "of_int M * 2 powi c \<le> round_double x"
proof -
  let ?u = "(2::real) powi (binade x - 52)"
  let ?k = "M * 2 ^ nat (c - (binade x - 52))"
  have u: "0 < ?u" by simp
  have g: "of_int M * 2 powi c = of_int ?k * ?u" using assms(2) by (rule on_grid)
  from assms(3) have "of_int ?k * ?u \<le> x" unfolding g .
  with u have "of_int ?k \<le> x / ?u" by (simp add: field_simps)
  then have "of_int ?k - 1 / 2 < x / ?u" by linarith
  then have "?k \<le> round_half_even (x / ?u)" by (rule round_half_even_ge)
  then have "(of_int ?k :: real) \<le> of_int (round_half_even (x / ?u))" by (simp only: of_int_le_iff)
  with u have "of_int ?k * ?u \<le> of_int (round_half_even (x / ?u)) * ?u"
    by (simp add: mult_right_mono)
  then show ?thesis unfolding g round_double_pos [OF assms(1)] .
qed

lemma round_double_nonneg: "0 \<le> x \<Longrightarrow> 0 \<le> round_double x"
proof (cases "x = 0")
  case True
  then show ?thesis by (simp add: round_double_def)
next
  case False
  assume "0 \<le> x"
  with False have x: "0 < x" by simp
  have "of_int 0 * 2 powi (binade x - 52) \<le> round_double x"
    using x by (rule round_double_ge) (use x in simp_all)
  then show ?thesis by simp
qed

lemma abs_scale: "0 < (u::real) \<Longrightarrow> \<bar>a - x / u\<bar> * u = \<bar>a * u - x\<bar>"
proof -
  assume u: "0 < u"
  then have "\<bar>a - x / u\<bar> * u = \<bar>(a - x / u) * u\<bar>" by (simp add: abs_mult)
  also have "(a - x / u) * u = a * u - x" using u by (simp add: field_simps)
  finally show ?thesis .
qed

lemma div_grid: "0 < (u::real) \<Longrightarrow> x = j * u \<Longrightarrow> x / u = j"
  by simp

lemma round_double_err:
  assumes "0 < x"
  shows "\<bar>round_double x - x\<bar> \<le> 2 powi (binade x - 52) / 2"
proof -
  let ?u = "(2::real) powi (binade x - 52)"
  have u: "0 < ?u" by simp
  have "\<bar>of_int (round_half_even (x / ?u)) - x / ?u\<bar> \<le> 1 / 2" by (rule round_half_even_err)
  with u have "\<bar>of_int (round_half_even (x / ?u)) - x / ?u\<bar> * ?u \<le> 1 / 2 * ?u"
    by (simp add: mult_right_mono)
  moreover have "\<bar>of_int (round_half_even (x / ?u)) - x / ?u\<bar> * ?u =
      \<bar>of_int (round_half_even (x / ?u)) * ?u - x\<bar>"
    using u by (rule abs_scale)
  ultimately show ?thesis unfolding round_double_pos [OF assms] by simp
qed

text \<open>Below \<open>2\<^sup>2\<^sup>0\<close> the grid is \<open>2\<^sup>-\<^sup>3\<^sup>3\<close> or finer.\<close>

lemma grid_below_2_20:
  assumes "0 < x" and "x < 2 ^ 20"
  shows "binade x - 52 \<le> - 33"
proof -
  from assms(2) have "x < 2 powi 20" by simp
  with assms(1) have "binade x < 20" by (rule binade_less) simp
  then show ?thesis by simp
qed

lemma round_double_err_2_20:
  assumes "0 \<le> x" and "x < 2 ^ 20"
  shows "\<bar>round_double x - x\<bar> \<le> 1 / 2 ^ 34"
proof (cases "x = 0")
  case True
  then show ?thesis by (simp add: round_double_def)
next
  case False
  with assms(1) have x: "0 < x" by simp
  from x assms(2) have "binade x - 52 \<le> - 33" by (rule grid_below_2_20)
  then have "(2::real) powi (binade x - 52) \<le> 2 powi (- 33)" by (rule two_powi_mono)
  with round_double_err [OF x] show ?thesis by simp
qed

text \<open>Numbers with at most 53 significant bits and an exponent in range are binary64 values.\<close>

lemma is_double_dyadic:
  assumes "0 < k" and "k < 2 ^ 53" and "- 1074 \<le> e"
  shows "is_double (of_int k * 2 powi e)"
proof -
  let ?x = "of_int k * (2::real) powi e"
  from assms(1) have x: "0 < ?x" by simp
  have fine: "binade ?x - 52 \<le> e"
  proof (cases "binade ?x = - 1022")
    case True
    with assms(3) show ?thesis by simp
  next
    case False
    with binade_lower [OF x] have "2 powi binade ?x \<le> ?x" by simp
    also have "?x < 2 ^ 53 * 2 powi e"
    proof -
      from assms(2) have "(of_int k :: real) < of_int (2 ^ 53)" by (simp only: of_int_less_iff)
      then show ?thesis by (simp add: mult_strict_right_mono)
    qed
    also have "\<dots> = 2 powi (53 + e)" using two_powi_split [of 53 e] by simp
    finally have "(2::real) powi binade ?x < 2 powi (53 + e)" .
    then have "binade ?x < 53 + e"
      using two_powi_mono [of "53 + e" "binade ?x"] by (cases "binade ?x < 53 + e") simp_all
    then show ?thesis by simp
  qed
  let ?u = "(2::real) powi (binade ?x - 52)"
  let ?j = "k * 2 ^ nat (e - (binade ?x - 52))"
  have u: "0 < ?u" by simp
  have g: "?x = of_int ?j * ?u" using fine by (rule on_grid)
  with u have "?x / ?u = of_int ?j" by (rule div_grid)
  then have "round_half_even (?x / ?u) = ?j" by (simp only: round_half_even_of_int)
  then have "round_double ?x = of_int ?j * ?u" unfolding round_double_pos [OF x] by (simp only:)
  with g show ?thesis by (simp only: is_double_def)
qed

section \<open>Code generator: range of the codes\<close>


lemma show_nat_inj: "show_nat a = show_nat b \<Longrightarrow> a = b"
  by (metis dec_val_show_nat)

lemma length_show_nat_six: "100000 \<le> n \<Longrightarrow> n \<le> 999999 \<Longrightarrow> length (show_nat n) = 6"
  using length_show_nat [of 5 n] by simp

lemma double_below_one:
  assumes "is_double r" and "0 \<le> r" and "r < 1"
  shows "r \<le> 1 - 1 / 2 ^ 53"
proof (cases "r < 1 / 2")
  case True
  have "(1::real) / 2 \<le> 1 - 1 / 2 ^ 53" by simp
  with True show ?thesis by linarith
next
  case False
  then have h: "2 powi (- 1) \<le> r" by simp
  then have r: "0 < r" by simp
  from assms(3) have "r < 2 powi (- 1 + 1)" by simp
  with h have b: "binade r = - 1" by (rule binade_eq) simp
  let ?K = "round_half_even (r / 2 powi (- 53))"
  from assms(1) have e: "of_int ?K * 2 powi (- 53) = r"
    using round_double_pos [OF r] by (simp add: is_double_def b)
  with assms(3) have "of_int ?K * 2 powi (- 53) < (1::real)" by simp
  then have "(of_int ?K :: real) < of_int (2 ^ 53)" by (simp add: power_int_minus field_simps)
  then have "?K < 2 ^ 53" by (simp only: of_int_less_iff)
  then have "?K \<le> 2 ^ 53 - 1" by simp
  then have "(of_int ?K :: real) \<le> of_int (2 ^ 53 - 1)" by (simp only: of_int_le_iff)
  then have "of_int ?K * 2 powi (- 53) \<le> (of_int (2 ^ 53 - 1) :: real) * 2 powi (- 53)"
    by (simp add: mult_right_mono)
  then show ?thesis unfolding e by (simp add: power_int_minus field_simps)
qed

lemma product_bound:
  assumes "0 \<le> p" and "p \<le> 900000 - 900000 / 2 ^ 53"
  shows "0 \<le> round_double p" and "round_double p \<le> 900000 - 1 / 2 ^ 33"
proof -
  show "0 \<le> round_double p" using assms(1) by (rule round_double_nonneg)
  show "round_double p \<le> 900000 - 1 / 2 ^ 33"
  proof (cases "p = 0")
    case True
    then show ?thesis by (simp add: round_double_def)
  next
    case False
    with assms(1) have p: "0 < p" by simp
    show ?thesis
    proof (cases "p < 2 ^ 19")
      case True
      then have "p < 2 powi 19" by simp
      with p have "binade p < 19" by (rule binade_less) simp
      then have g: "binade p - 52 \<le> 19" by simp
      from True have "p \<le> of_int 1 * 2 powi 19" by simp
      with p g have "round_double p \<le> of_int 1 * 2 powi 19" by (rule round_double_le)
      then show ?thesis by simp
    next
      case False
      then have lo: "2 powi 19 \<le> p" by simp
      from assms(2) have "p < 2 powi (19 + 1)" by simp
      with lo have b: "binade p = 19" by (rule binade_eq) simp
      then have g: "binade p - 52 \<le> - 33" by simp
      have "p < of_int (900000 * 2 ^ 33 - 1) * 2 powi (- 33) + 2 powi (binade p - 52) / 2"
        using assms(2) by (simp add: b power_int_minus field_simps)
      with p g have "round_double p \<le> of_int (900000 * 2 ^ 33 - 1) * 2 powi (- 33)"
        by (rule round_double_le_near)
      then show ?thesis by (simp add: power_int_minus field_simps)
    qed
  qed
qed

lemma sum_bound:
  assumes "0 \<le> q" and "q \<le> 900000 - 1 / 2 ^ 33"
  shows "100000 \<le> round_double (100000 + q)"
    and "round_double (100000 + q) \<le> 1000000 - 1 / 2 ^ 33"
proof -
  let ?s = "100000 + q"
  from assms have s: "0 < ?s" "?s < 2 ^ 20" by simp_all
  then have g: "binade ?s - 52 \<le> - 33" by (rule grid_below_2_20)
  then have g0: "binade ?s - 52 \<le> 0" by simp
  from assms(1) have "of_int 100000 * 2 powi 0 \<le> ?s" by simp
  with s(1) g0 have "of_int 100000 * 2 powi 0 \<le> round_double ?s" by (rule round_double_ge)
  then show "100000 \<le> round_double ?s" by simp
  from assms(2) have "?s \<le> of_int (1000000 * 2 ^ 33 - 1) * 2 powi (- 33)"
    by (simp add: power_int_minus field_simps)
  with s(1) g have "round_double ?s \<le> of_int (1000000 * 2 ^ 33 - 1) * 2 powi (- 33)"
    by (rule round_double_le)
  then show "round_double ?s \<le> 1000000 - 1 / 2 ^ 33" by (simp add: power_int_minus field_simps)
qed

lemma generateOTP_floor:
  assumes "is_double r" and "0 \<le> r" and "r < 1"
  shows "100000 \<le> \<lfloor>round_double (100000 + round_double (r * 900000))\<rfloor>"
    and "\<lfloor>round_double (100000 + round_double (r * 900000))\<rfloor> \<le> 999999"
proof -
  from double_below_one [OF assms] have "r * 900000 \<le> (1 - 1 / 2 ^ 53) * 900000"
    by (simp only: mult_le_cancel_right_pos)
  then have p: "r * 900000 \<le> 900000 - 900000 / 2 ^ 53" by (simp add: algebra_simps)
  from assms(2) have p0: "0 \<le> r * 900000" by simp
  note q = product_bound [OF p0 p]
  note y = sum_bound [OF q]
  from y(1) show "100000 \<le> \<lfloor>round_double (100000 + round_double (r * 900000))\<rfloor>"
    by (simp add: le_floor_iff)
  have "round_double (100000 + round_double (r * 900000)) < 1000000"
    using y(2) by (simp add: field_simps)
  then show "\<lfloor>round_double (100000 + round_double (r * 900000))\<rfloor> \<le> 999999"
    by (simp add: floor_less_iff)
qed

lemma generateOTP_show_nat:
  assumes "is_double r" and "0 \<le> r" and "r < 1"
  shows "\<exists>n. 100000 \<le> n \<and> n \<le> 999999 \<and> generateOTP r = show_nat n"
proof -
  let ?k = "\<lfloor>round_double (100000 + round_double (r * 900000))\<rfloor>"
  from generateOTP_floor [OF assms] have k: "100000 \<le> ?k" "?k \<le> 999999" by simp_all
  then have "\<not> ?k < 0" by linarith
  then have "generateOTP r = show_nat (nat ?k)"
    unfolding generateOTP_def show_int_def by (simp only: if_False)
  moreover from k have "100000 \<le> nat ?k" "nat ?k \<le> 999999" by linarith+
  ultimately show ?thesis by blast
qed

text \<open>The lower end does not depend on \<open>r\<close> being a binary64 value.\<close>

lemma generateOTP_lower:
  assumes "0 \<le> r" and "r < 1"
  shows "\<exists>n. 100000 \<le> n \<and> generateOTP r = show_nat n"
proof -
  let ?p = "r * 900000"
  let ?s = "100000 + round_double ?p"
  let ?k = "\<lfloor>round_double ?s\<rfloor>"
  from assms have p: "0 \<le> ?p" "?p < 900000" by simp_all
  have q0: "0 \<le> round_double ?p" using p(1) by (rule round_double_nonneg)
  have q1: "round_double ?p \<le> 2 ^ 20"
  proof (cases "?p = 0")
    case True
    then show ?thesis by (simp add: round_double_def)
  next
    case False
    with p(1) have pp: "0 < ?p" by simp
    from p(2) have "?p < 2 powi 20" by simp
    with pp have "binade ?p < 20" by (rule binade_less) simp
    then have g: "binade ?p - 52 \<le> 20" by simp
    from p(2) have "?p \<le> of_int 1 * 2 powi 20" by simp
    with pp g have "round_double ?p \<le> of_int 1 * 2 powi 20" by (rule round_double_le)
    then show ?thesis by simp
  qed
  from q0 q1 have s: "0 < ?s" "?s < 2 powi 21" by simp_all
  then have "binade ?s < 21" by (rule binade_less) simp
  then have g: "binade ?s - 52 \<le> 0" by simp
  from q0 have "of_int 100000 * 2 powi 0 \<le> ?s" by simp
  with s(1) g have "of_int 100000 * 2 powi 0 \<le> round_double ?s" by (rule round_double_ge)
  then have k: "100000 \<le> ?k" by (simp add: le_floor_iff)
  then have "\<not> ?k < 0" by linarith
  then have "generateOTP r = show_nat (nat ?k)"
    unfolding generateOTP_def show_int_def by (simp only: if_False)
  moreover from k have "100000 \<le> nat ?k" by linarith
  ultimately show ?thesis by blast
qed

text \<open>The rounded result is within \<open>2\<^sup>-\<^sup>3\<^sup>3\<close> of the exact one.\<close>

lemma generateOTP_error:
  assumes "is_double r" and "0 \<le> r" and "r < 1"
  shows "\<bar>round_double (100000 + round_double (r * 900000)) - (100000 + r * 900000)\<bar>
           \<le> 1 / 2 ^ 33"
proof -
  let ?p = "r * 900000"
  let ?q = "round_double ?p"
  from double_below_one [OF assms] have "r * 900000 \<le> (1 - 1 / 2 ^ 53) * 900000"
    by (simp only: mult_le_cancel_right_pos)
  then have p: "?p \<le> 900000 - 900000 / 2 ^ 53" by (simp add: algebra_simps)
  from assms(2) have p0: "0 \<le> ?p" by simp
  note q = product_bound [OF p0 p]
  from assms have "?p < 2 ^ 20" by simp
  with p0 have e1: "\<bar>?q - ?p\<bar> \<le> 1 / 2 ^ 34" by (rule round_double_err_2_20)
  from q have "0 \<le> 100000 + ?q" "100000 + ?q < 2 ^ 20" by simp_all
  then have e2: "\<bar>round_double (100000 + ?q) - (100000 + ?q)\<bar> \<le> 1 / 2 ^ 34"
    by (rule round_double_err_2_20)
  have "(1::real) / 2 ^ 34 + 1 / 2 ^ 34 = 1 / 2 ^ 33" by simp
  with e1 e2 show ?thesis by linarith
qed

lemmas double_eval = round_double_def round_pos_def binade_def round_half_even_def
  log2_floor.simps Let_def

text \<open>
  Two values of \<^verbatim>\<open>Math.random()\<close>, run through the definition. At the second one the exact
  sum is just below 100030 and the rounded sum is 100030.
\<close>

lemma generateOTP_half: "generateOTP (1 / 2) = ''550000''"
  by (simp add: generateOTP_def double_eval show_int_def show_nat.simps digit_char_def)

lemma generateOTP_rounds_up:
  "generateOTP (150119987579 / 2 ^ 52) = ''100030'' \<and>
   \<lfloor>100000 + (150119987579 / 2 ^ 52) * 900000 :: real\<rfloor> = 100029"
  by (simp add: generateOTP_def double_eval show_int_def show_nat.simps digit_char_def)

text \<open>
  C10 (range of the generator). For every binary64 value \<open>r\<close> that \<^verbatim>\<open>Math.random()\<close> can
  return, that is \<open>0 \<le> r < 1\<close>, the code has exactly six characters, all decimal digits, its
  numeric value lies between 100000 and 999999, and its first character is not \<^verbatim>\<open>0\<close>.
\<close>

theorem generateOTP_six_digits_no_leading_zero:
  assumes "is_double r" and "0 \<le> r" and "r < 1"
  shows "length (generateOTP r) = 6 \<and> list_all is_digit (generateOTP r) \<and>
         100000 \<le> dec_val (generateOTP r) \<and> dec_val (generateOTP r) \<le> 999999 \<and>
         hd (generateOTP r) \<noteq> CHR ''0''"
proof -
  from generateOTP_show_nat [OF assms] obtain n
    where n: "100000 \<le> n" "n \<le> 999999" and g: "generateOTP r = show_nat n" by blast
  from n have "length (show_nat n) = 6" by (rule length_show_nat_six)
  moreover have "list_all is_digit (show_nat n)" by (simp add: list_all_iff show_nat_digits)
  moreover from n have "hd (show_nat n) \<noteq> CHR ''0''" by (simp add: hd_show_nat)
  ultimately show ?thesis using n g by (simp add: dec_val_show_nat)
qed

theorem generateOTP_six_digits_no_leading_zero_witness:
  "is_double (1 / 2) \<and> (0::real) \<le> 1 / 2 \<and> (1 / 2 :: real) < 1 \<and>
   generateOTP (1 / 2) = ''550000'' \<and>
   length (generateOTP (1 / 2)) = 6 \<and> list_all is_digit (generateOTP (1 / 2)) \<and>
   100000 \<le> dec_val (generateOTP (1 / 2)) \<and> dec_val (generateOTP (1 / 2)) \<le> 999999 \<and>
   hd (generateOTP (1 / 2)) \<noteq> CHR ''0''"
proof -
  have d: "is_double (1 / 2)" by (simp add: is_double_def double_eval)
  have h: "(0::real) \<le> 1 / 2" "(1 / 2 :: real) < 1" by simp_all
  from generateOTP_six_digits_no_leading_zero [OF d h] generateOTP_half d h
  show ?thesis by blast
qed

text \<open>The code is \<open>n\<close> when the exact sum lies in \<open>[n, n + 1)\<close>, up to the rounding error.\<close>

lemma generateOTP_inside:
  assumes "is_double r" and "0 \<le> r" and "r < 1"
      and "real n + 1 / 2 ^ 33 \<le> 100000 + r * 900000"
      and "100000 + r * 900000 < real n + 1 - 1 / 2 ^ 33"
  shows "generateOTP r = show_nat n"
proof -
  let ?y = "round_double (100000 + round_double (r * 900000))"
  from generateOTP_error [OF assms(1-3)] assms(4,5) have "real n \<le> ?y" "?y < real n + 1"
    by linarith+
  then have "\<lfloor>?y\<rfloor> = int n" by (simp add: floor_eq_iff)
  then show ?thesis by (simp add: generateOTP_def show_int_def)
qed

lemma generateOTP_outside:
  assumes "is_double r" and "0 \<le> r" and "r < 1" and "generateOTP r = show_nat n"
  shows "real n - 1 / 2 ^ 33 \<le> 100000 + r * 900000"
    and "100000 + r * 900000 < real n + 1 + 1 / 2 ^ 33"
proof -
  let ?y = "round_double (100000 + round_double (r * 900000))"
  from generateOTP_floor [OF assms(1-3)] have k: "\<not> \<lfloor>?y\<rfloor> < 0" by linarith
  have "generateOTP r = show_nat (nat \<lfloor>?y\<rfloor>)"
    unfolding generateOTP_def show_int_def using k by (simp only: if_False)
  with assms(4) have "nat \<lfloor>?y\<rfloor> = n" using show_nat_inj by auto
  with k have "\<lfloor>?y\<rfloor> = int n" by linarith
  then have "real n \<le> ?y" "?y < real n + 1" by linarith+
  with generateOTP_error [OF assms(1-3)]
  show "real n - 1 / 2 ^ 33 \<le> 100000 + r * 900000"
    and "100000 + r * 900000 < real n + 1 + 1 / 2 ^ 33"
    by linarith+
qed

lemma generateOTP_onto:
  assumes "100000 \<le> n" and "n \<le> 999999"
  shows "\<exists>r. is_double r \<and> 0 \<le> r \<and> r < 1 \<and> generateOTP r = show_nat n"
proof -
  define c :: real where "c = 900000 / 2 ^ 40"
  define a :: real where "a = (real n - 100000 + 1 / 4) / c"
  define K where "K = \<lceil>a\<rceil>"
  define r :: real where "r = of_int K * 2 powi (- 40)"
  have c: "0 < c" "c < 1 / 4" by (simp_all add: c_def)
  from assms(1) c(1) have a0: "0 < a" by (simp add: a_def)
  have ac: "a * c = real n - 100000 + 1 / 4" using c(1) by (simp add: a_def)
  have Ka: "a \<le> of_int K" "of_int K < a + 1"
    unfolding K_def using ceiling_correct [of a] by linarith+
  from a0 Ka(1) have "(0::real) < of_int K" by linarith
  then have K0: "0 < K" by simp
  from assms(2) have "real n - 100000 + 1 / 4 \<le> 900000" by simp
  then have "a \<le> 900000 / c" using c(1) by (simp add: a_def field_simps)
  also have "\<dots> = 2 ^ 40" by (simp add: c_def)
  finally have "a + 1 \<le> 2 ^ 40 + 1" by simp
  with Ka(2) have "(of_int K :: real) < of_int (2 ^ 53)" by simp
  then have K1: "K < 2 ^ 53" by (simp only: of_int_less_iff)
  from K0 K1 have d: "is_double r" unfolding r_def by (rule is_double_dyadic) simp
  have r9: "r * 900000 = of_int K * c" by (simp add: r_def c_def power_int_minus)
  from Ka(1) c(1) have "a * c \<le> of_int K * c" by (simp add: mult_right_mono)
  then have lo: "real n - 100000 + 1 / 4 \<le> r * 900000" by (simp only: ac r9)
  from Ka(2) c(1) have "of_int K * c < (a + 1) * c" by (simp add: mult_strict_right_mono)
  then have "r * 900000 < a * c + c" by (simp add: r9 algebra_simps)
  then have hi: "r * 900000 < real n - 100000 + 1 / 4 + c" by (simp only: ac)
  from K0 have r0: "0 \<le> r" by (simp add: r_def)
  from hi assms(2) c(2) have "r * 900000 < 900000" by simp
  then have r1: "r < 1" by simp
  from lo have i1: "real n + 1 / 2 ^ 33 \<le> 100000 + r * 900000" by simp
  from hi c(2) have i2: "100000 + r * 900000 < real n + 1 - 1 / 2 ^ 33" by simp
  from d r0 r1 i1 i2 have "generateOTP r = show_nat n" by (rule generateOTP_inside)
  with d r0 r1 show ?thesis by blast
qed

text \<open>
  C4 (code generator), as the code does it. \<open>r\<close> is the value drawn from the random source,
  a binary64 value with \<open>0 \<le> r < 1\<close>. Every code is a string of six decimal digits. The codes
  are the numbers from 100000 to 999999 and each of them is produced: the code is \<open>n\<close>
  whenever \<open>100000 + 900000 r\<close> lies in \<open>[n, n + 1)\<close> and not within \<open>2\<^sup>-\<^sup>3\<^sup>3\<close> of an end, and
  only if it lies in \<open>[n, n + 1)\<close> or within \<open>2\<^sup>-\<^sup>3\<^sup>3\<close> of it. So the codes are spread over
  100000 to 999999 as evenly as the random source spreads \<open>r\<close> over \<open>[0, 1)\<close>, up to double
  rounding, and no code starts with \<^verbatim>\<open>0\<close>.
\<close>

theorem generateOTP_codes:
  "(is_double r \<and> 0 \<le> r \<and> r < 1 \<longrightarrow>
      length (generateOTP r) = 6 \<and> list_all is_digit (generateOTP r) \<and>
      hd (generateOTP r) \<noteq> CHR ''0'') \<and>
   (is_double r \<and> 0 \<le> r \<and> r < 1 \<and>
    real n + 1 / 2 ^ 33 \<le> 100000 + r * 900000 \<and>
    100000 + r * 900000 < real n + 1 - 1 / 2 ^ 33 \<longrightarrow>
      generateOTP r = show_nat n) \<and>
   (is_double r \<and> 0 \<le> r \<and> r < 1 \<and> generateOTP r = show_nat n \<longrightarrow>
      100000 \<le> n \<and> n \<le> 999999 \<and>
      real n - 1 / 2 ^ 33 \<le> 100000 + r * 900000 \<and>
      100000 + r * 900000 < real n + 1 + 1 / 2 ^ 33) \<and>
   (100000 \<le> n \<and> n \<le> 999999 \<longrightarrow>
      (\<exists>r'. is_double r' \<and> 0 \<le> r' \<and> r' < 1 \<and> generateOTP r' = show_nat n))"
proof (intro conjI impI)
  assume a: "is_double r \<and> 0 \<le> r \<and> r < 1"
  then obtain m where m: "100000 \<le> m" "m \<le> 999999" and g: "generateOTP r = show_nat m"
    using generateOTP_show_nat by blast
  from m g show "length (generateOTP r) = 6" by (simp add: length_show_nat_six)
  from g show "list_all is_digit (generateOTP r)" by (simp add: list_all_iff show_nat_digits)
  from m g show "hd (generateOTP r) \<noteq> CHR ''0''" by (simp add: hd_show_nat)
next
  assume "is_double r \<and> 0 \<le> r \<and> r < 1 \<and>
    real n + 1 / 2 ^ 33 \<le> 100000 + r * 900000 \<and>
    100000 + r * 900000 < real n + 1 - 1 / 2 ^ 33"
  then show "generateOTP r = show_nat n" using generateOTP_inside by blast
next
  assume a: "is_double r \<and> 0 \<le> r \<and> r < 1 \<and> generateOTP r = show_nat n"
  then obtain m where m: "100000 \<le> m" "m \<le> 999999" and g: "generateOTP r = show_nat m"
    using generateOTP_show_nat by blast
  with a have "m = n" using show_nat_inj by auto
  with m show "100000 \<le> n" "n \<le> 999999" by simp_all
  from a show "real n - 1 / 2 ^ 33 \<le> 100000 + r * 900000"
    using generateOTP_outside(1) by blast
  from a show "100000 + r * 900000 < real n + 1 + 1 / 2 ^ 33"
    using generateOTP_outside(2) by blast
next
  assume "100000 \<le> n \<and> n \<le> 999999"
  then show "\<exists>r'. is_double r' \<and> 0 \<le> r' \<and> r' < 1 \<and> generateOTP r' = show_nat n"
    using generateOTP_onto by blast
qed

theorem generateOTP_codes_witness:
  "is_double (1 / 64) \<and> (0::real) \<le> 1 / 64 \<and> (1 / 64 :: real) < 1 \<and>
   real 114062 + 1 / 2 ^ 33 \<le> 100000 + (1 / 64) * 900000 \<and>
   100000 + (1 / 64) * 900000 < real 114062 + 1 - 1 / 2 ^ 33 \<and>
   (100000::nat) \<le> 114062 \<and> (114062::nat) \<le> 999999 \<and>
   generateOTP (1 / 64) = show_nat 114062 \<and>
   length (generateOTP (1 / 64)) = 6 \<and> list_all is_digit (generateOTP (1 / 64)) \<and>
   hd (generateOTP (1 / 64)) \<noteq> CHR ''0''"
proof -
  have d: "is_double (1 / 64)" by (simp add: is_double_def double_eval)
  have h: "(0::real) \<le> 1 / 64" "(1 / 64 :: real) < 1" by simp_all
  have i: "real 114062 + 1 / 2 ^ 33 \<le> 100000 + (1 / 64) * 900000"
    "100000 + (1 / 64) * 900000 < real 114062 + 1 - 1 / 2 ^ 33" by simp_all
  have n: "(100000::nat) \<le> 114062" "(114062::nat) \<le> 999999" by simp_all
  note c = generateOTP_codes [of "1 / 64" 114062]
  from c d h i have g: "generateOTP (1 / 64) = show_nat 114062" by blast
  from c d h have "length (generateOTP (1 / 64)) = 6 \<and> list_all is_digit (generateOTP (1 / 64)) \<and>
      hd (generateOTP (1 / 64)) \<noteq> CHR ''0''" by blast
  with d h i n g show ?thesis by blast
qed

theorem generateOTP_leading_zero_counterexample:
  "\<not> (\<exists>r. 0 \<le> r \<and> r < 1 \<and> generateOTP r = ''048213'')"
proof
  assume "\<exists>r. 0 \<le> r \<and> r < 1 \<and> generateOTP r = ''048213''"
  then obtain r where r: "0 \<le> r" "r < 1" and g: "generateOTP r = ''048213''" by blast
  from generateOTP_lower [OF r] obtain n
    where n: "100000 \<le> n" and e: "generateOTP r = show_nat n" by blast
  from n have "hd (show_nat n) \<noteq> CHR ''0''" by (simp add: hd_show_nat)
  with g e show False by simp
qed

section \<open>Decimal strings are read back as written\<close>

lemma is_digit_not_ws: "is_digit c \<Longrightarrow> \<not> is_ws c"
  by (auto simp: is_digit_def is_ws_def)

lemma is_digit_not_sign: "is_digit c \<Longrightarrow> c \<noteq> CHR ''-'' \<and> c \<noteq> CHR ''+'' \<and> c \<noteq> CHR ''x'' \<and> c \<noteq> CHR ''X''"
  by (auto simp: is_digit_def)

lemma show_nat_Cons: "\<exists>c cs. show_nat n = c # cs \<and> is_digit c \<and> list_all is_digit cs"
proof -
  obtain c cs where e: "show_nat n = c # cs"
    using show_nat_nonempty [of n] by (cases "show_nat n") auto
  have "\<forall>x \<in> set (show_nat n). is_digit x" by (simp add: show_nat_digits)
  with e show ?thesis by (simp add: list_all_iff)
qed

lemma takeWhile_all: "list_all P xs \<Longrightarrow> takeWhile P xs = xs"
  by (induction xs) auto

lemma parseInt_show_nat: "parseInt (show_nat n) = Num (int n)"
proof -
  obtain c cs where e: "show_nat n = c # cs" and c: "is_digit c" and cs: "list_all is_digit cs"
    using show_nat_Cons by blast
  from c have nws: "\<not> is_ws c" by (rule is_digit_not_ws)
  from c have ns: "c \<noteq> CHR ''-''" "c \<noteq> CHR ''+''" using is_digit_not_sign by blast+
  have s1: "dropWhile is_ws (show_nat n) = show_nat n"
    using nws by (simp add: e)
  have sg: "take 1 (show_nat n) \<noteq> ''-''" "take 1 (show_nat n) \<noteq> ''+''"
    using ns by (simp_all add: e)
  have nhex: "take 2 (show_nat n) \<noteq> ''0x''" "take 2 (show_nat n) \<noteq> ''0X''"
    using cs is_digit_not_sign unfolding e by (cases cs; auto)+
  have tw: "takeWhile is_digit (show_nat n) = show_nat n"
    using c cs by (simp add: e takeWhile_all)
  show ?thesis
    unfolding parseInt_def Let_def
    by (simp only: s1 sg nhex tw if_False simp_thms dec_val_show_nat show_nat_nonempty)
qed

lemma length_show_nat_le: "0 < k \<Longrightarrow> n < 10 ^ k \<Longrightarrow> length (show_nat n) \<le> k"
proof (induction k arbitrary: n)
  case 0
  then show ?case by simp
next
  case (Suc k)
  show ?case
  proof (cases "n < 10")
    case True
    then show ?thesis by (simp add: show_nat.simps [of n])
  next
    case False
    then have k: "0 < k" using Suc.prems by (cases k) auto
    from Suc.prems have "n div 10 < 10 ^ k"
      by (simp add: less_mult_imp_div_less mult.commute)
    with k have "length (show_nat (n div 10)) \<le> k" by (rule Suc.IH)
    with False show ?thesis by (simp add: show_nat.simps [of n])
  qed
qed

lemma string2ll_show_nat:
  assumes "int n \<le> 2 ^ 63 - 1"
  shows "string2ll (show_nat n) = Some (int n)"
proof (cases "n = 0")
  case True
  then show ?thesis by (simp add: show_nat.simps digit_char_def string2ll_def)
next
  case False
  obtain c cs where e: "show_nat n = c # cs" and c: "is_digit c" and cs: "list_all is_digit cs"
    using show_nat_Cons by blast
  from False have "hd (show_nat n) \<noteq> CHR ''0''" by (simp add: hd_show_nat)
  with e have c0: "c \<noteq> CHR ''0''" by simp
  from c have ns: "c \<noteq> CHR ''-''" using is_digit_not_sign by blast
  from assms have "n < 10 ^ 20" by simp
  then have "length (show_nat n) \<le> 20" by (simp add: length_show_nat_le)
  with e have len: "\<not> 21 \<le> length (c # cs)" by simp
  have v: "dec_val (c # cs) = n" using e dec_val_show_nat [of n] by simp
  have z: "c # cs \<noteq> ''0''" using c0 by simp
  have t1: "take 1 (c # cs) \<noteq> ''-''" using ns by simp
  from c c0 cs len v assms z t1 show ?thesis
    unfolding string2ll_def e Let_def by (simp del: take_Suc_Cons One_nat_def)
qed

lemma otpKey_inj: "otpKey a = otpKey b \<longleftrightarrow> a = b"
  by (simp add: otpKey_def)

lemma attemptsKey_inj: "attemptsKey a = attemptsKey b \<longleftrightarrow> a = b"
  by (simp add: attemptsKey_def)

lemma rateLimitKey_inj: "rateLimitKey a = rateLimitKey b \<longleftrightarrow> a = b"
  by (simp add: rateLimitKey_def)

lemma attemptsKey_neq_rateLimitKey: "attemptsKey a \<noteq> rateLimitKey b"
  by (simp add: attemptsKey_def rateLimitKey_def)

lemma otpKey_neq_attemptsKey: "otpKey a \<noteq> attemptsKey a"
proof
  assume "otpKey a = attemptsKey a"
  then have "a = ''attempts:'' @ a" by (simp add: otpKey_def attemptsKey_def)
  then have "length a = length (''attempts:'' @ a)" by simp
  then show False by simp
qed

lemma otpKey_neq_rateLimitKey: "otpKey a \<noteq> rateLimitKey a"
proof
  assume "otpKey a = rateLimitKey a"
  then have "a = ''ratelimit:'' @ a" by (simp add: otpKey_def rateLimitKey_def)
  then have "length a = length (''ratelimit:'' @ a)" by simp
  then show False by simp
qed

section \<open>Store commands and the verifier, case by case\<close>

lemma redis_del_del: "redis_del (redis_del db a) b = db(a := None, b := None)"
  by (simp add: redis_del_def)

lemma redis_incr_absent:
  "db k = None \<Longrightarrow> redis_incr db k = Inr (db(k \<mapsto> \<lparr>val = ''1'', ttl = None\<rparr>))"
  by (simp add: redis_incr_def show_int_def show_nat.simps digit_char_def)

lemma show_int_nat: "show_int (int n) = show_nat n"
  by (simp add: show_int_def)

lemma redis_incr_count:
  assumes "db k = Some \<lparr>val = show_nat n, ttl = t\<rparr>" and "int n < 2 ^ 63 - 1"
  shows "redis_incr db k = Inr (db(k \<mapsto> \<lparr>val = show_nat (Suc n), ttl = t\<rparr>))"
proof -
  from assms(2) have "string2ll (show_nat n) = Some (int n)"
    by (simp add: string2ll_show_nat)
  moreover have "show_int (int n + 1) = show_nat (Suc n)"
    using show_int_nat [of "Suc n"] by (simp add: add.commute)
  ultimately show ?thesis
    using assms by (simp add: redis_incr_def)
qed

lemma read_attempts_show_nat: "read_attempts (Some (show_nat n)) = Num (int n)"
  by (simp add: read_attempts_def show_nat_nonempty parseInt_show_nat)

lemma verifyOTP_not_found:
  assumes "redisClient svc = Some db"
      and "redis_get db (otpKey identifier) = None \<or> redis_get db (otpKey identifier) = Some []"
  shows "verifyOTP hashOTP svc identifier otp =
           (Inr \<lparr>valid = False, v_message = ''OTP expired or not found''\<rparr>, svc)"
  using assms by (auto simp: verifyOTP_def)

lemma verifyOTP_exceeded:
  assumes "redisClient svc = Some db"
      and "redis_get db (otpKey identifier) = Some h" and "h \<noteq> []"
      and "num_ge (read_attempts (redis_get db (attemptsKey identifier))) MAX_ATTEMPTS"
  shows "verifyOTP hashOTP svc identifier otp =
           (Inr \<lparr>valid = False, v_message = ''Maximum verification attempts exceeded''\<rparr>,
            svc\<lparr>redisClient := Some (db(otpKey identifier := None, attemptsKey identifier := None))\<rparr>)"
  using assms by (simp add: verifyOTP_def redis_del_del)

lemma verifyOTP_match:
  assumes "redisClient svc = Some db"
      and "redis_get db (otpKey identifier) = Some h" and "h \<noteq> []"
      and "\<not> num_ge (read_attempts (redis_get db (attemptsKey identifier))) MAX_ATTEMPTS"
      and "hashOTP otp = h"
  shows "verifyOTP hashOTP svc identifier otp =
           (Inr \<lparr>valid = True, v_message = ''OTP verified successfully''\<rparr>,
            svc\<lparr>redisClient := Some (db(otpKey identifier := None, attemptsKey identifier := None))\<rparr>)"
  using assms by (simp add: verifyOTP_def redis_del_del)

lemma verifyOTP_mismatch:
  assumes "redisClient svc = Some db"
      and "redis_get db (otpKey identifier) = Some h" and "h \<noteq> []"
      and "\<not> num_ge (read_attempts (redis_get db (attemptsKey identifier))) MAX_ATTEMPTS"
      and "hashOTP otp \<noteq> h"
      and "redis_incr db (attemptsKey identifier) = Inr db'"
  shows "verifyOTP hashOTP svc identifier otp =
           (Inr \<lparr>valid = False,
                 v_message = ''Invalid OTP. ''
                   @ num_show (num_rsub MAX_ATTEMPTS
                        (num_add (read_attempts (redis_get db (attemptsKey identifier))) 1))
                   @ '' attempt(s) remaining''\<rparr>,
            svc\<lparr>redisClient := Some db'\<rparr>)"
  using assms by (simp add: verifyOTP_def)

text \<open>A mismatch against a counter that holds \<open>n < 3\<close>.\<close>

lemma verifyOTP_mismatch_count:
  assumes "redisClient svc = Some db"
      and "db (otpKey identifier) = Some \<lparr>val = h, ttl = t\<rparr>" and "h \<noteq> []"
      and "hashOTP otp \<noteq> h"
      and "db (attemptsKey identifier) = Some \<lparr>val = show_nat n, ttl = t'\<rparr>" and "n < 3"
  shows "verifyOTP hashOTP svc identifier otp =
           (Inr \<lparr>valid = False,
                 v_message = ''Invalid OTP. '' @ show_nat (2 - n) @ '' attempt(s) remaining''\<rparr>,
            svc\<lparr>redisClient :=
              Some (db(attemptsKey identifier \<mapsto> \<lparr>val = show_nat (Suc n), ttl = t'\<rparr>))\<rparr>)"
proof -
  have g: "redis_get db (otpKey identifier) = Some h"
    using assms(2) by (simp add: redis_get_def)
  have a: "read_attempts (redis_get db (attemptsKey identifier)) = Num (int n)"
    using assms(5) by (simp add: redis_get_def read_attempts_show_nat)
  have nge: "\<not> num_ge (read_attempts (redis_get db (attemptsKey identifier))) MAX_ATTEMPTS"
    using assms(6) by (simp add: a num_ge_def MAX_ATTEMPTS_def)
  have i: "redis_incr db (attemptsKey identifier) =
             Inr (db(attemptsKey identifier \<mapsto> \<lparr>val = show_nat (Suc n), ttl = t'\<rparr>))"
    using assms(5,6) by (intro redis_incr_count) simp_all
  have "MAX_ATTEMPTS - (int n + 1) = int (2 - n)"
    using assms(6) by (simp add: MAX_ATTEMPTS_def)
  then have m: "num_show (num_rsub MAX_ATTEMPTS (num_add (Num (int n)) 1)) = show_nat (2 - n)"
    by (simp add: num_show_def num_rsub_def num_add_def show_int_nat)
  have "verifyOTP hashOTP svc identifier otp =
           (Inr \<lparr>valid = False,
                 v_message = ''Invalid OTP. ''
                   @ num_show (num_rsub MAX_ATTEMPTS
                        (num_add (read_attempts (redis_get db (attemptsKey identifier))) 1))
                   @ '' attempt(s) remaining''\<rparr>,
            svc\<lparr>redisClient :=
              Some (db(attemptsKey identifier \<mapsto> \<lparr>val = show_nat (Suc n), ttl = t'\<rparr>))\<rparr>)"
    using assms(1) g assms(3) nge assms(4) i by (rule verifyOTP_mismatch)
  then show ?thesis by (simp only: a m)
qed

section \<open>Verifier: single use and mismatch accounting\<close>

lemmas sample_keys = sample_db_def sample_id_def sample_hash_def otpKey_def attemptsKey_def rateLimitKey_def

lemmas parse_eval = read_attempts_def parseInt_def is_ws_def is_digit_def dec_val_def digit_val_def
  num_ge_def MAX_ATTEMPTS_def MAX_OTP_PER_HOUR_def

text \<open>
  C1 (single use). A live code record, fewer than three counted attempts and a submitted code
  that hashes to the stored hash: the call succeeds and deletes the code record and the
  attempt counter; the same code submitted again is answered "OTP expired or not found".
\<close>

theorem verifyOTP_single_use:
  assumes "redisClient svc = Some db"
      and "redis_get db (otpKey identifier) = Some (hashOTP otp)" and "hashOTP otp \<noteq> []"
      and "read_attempts (redis_get db (attemptsKey identifier)) = Num n" and "n < MAX_ATTEMPTS"
  shows "verifyOTP hashOTP svc identifier otp =
           (Inr \<lparr>valid = True, v_message = ''OTP verified successfully''\<rparr>,
            svc\<lparr>redisClient := Some (db(otpKey identifier := None, attemptsKey identifier := None))\<rparr>)
         \<and> verifyOTP hashOTP (snd (verifyOTP hashOTP svc identifier otp)) identifier otp =
           (Inr \<lparr>valid = False, v_message = ''OTP expired or not found''\<rparr>,
            snd (verifyOTP hashOTP svc identifier otp))"
proof -
  let ?db' = "db(otpKey identifier := None, attemptsKey identifier := None)"
  let ?svc' = "svc\<lparr>redisClient := Some ?db'\<rparr>"
  from assms(4,5) have nge:
    "\<not> num_ge (read_attempts (redis_get db (attemptsKey identifier))) MAX_ATTEMPTS"
    by (simp add: num_ge_def)
  have first: "verifyOTP hashOTP svc identifier otp =
      (Inr \<lparr>valid = True, v_message = ''OTP verified successfully''\<rparr>, ?svc')"
    using assms(1,2,3) nge by (rule verifyOTP_match) simp
  have "redisClient ?svc' = Some ?db'" by simp
  moreover have "redis_get ?db' (otpKey identifier) = None \<or>
                 redis_get ?db' (otpKey identifier) = Some []"
    by (simp add: redis_get_def)
  ultimately have "verifyOTP hashOTP ?svc' identifier otp =
      (Inr \<lparr>valid = False, v_message = ''OTP expired or not found''\<rparr>, ?svc')"
    by (rule verifyOTP_not_found)
  with first show ?thesis by simp
qed

theorem verifyOTP_single_use_witness:
  "redisClient \<lparr>redisClient = Some (sample_db ''2'' ''1'')\<rparr> = Some (sample_db ''2'' ''1'') \<and>
   redis_get (sample_db ''2'' ''1'') (otpKey sample_id) = Some (sample_hash ''550000'') \<and>
   sample_hash ''550000'' \<noteq> [] \<and>
   read_attempts (redis_get (sample_db ''2'' ''1'') (attemptsKey sample_id)) = Num 2 \<and>
   2 < MAX_ATTEMPTS \<and>
   verifyOTP sample_hash \<lparr>redisClient = Some (sample_db ''2'' ''1'')\<rparr> sample_id ''550000'' =
     (Inr \<lparr>valid = True, v_message = ''OTP verified successfully''\<rparr>,
      \<lparr>redisClient = Some ((sample_db ''2'' ''1'')
          (otpKey sample_id := None, attemptsKey sample_id := None))\<rparr>) \<and>
   verifyOTP sample_hash
     \<lparr>redisClient = Some ((sample_db ''2'' ''1'')
          (otpKey sample_id := None, attemptsKey sample_id := None))\<rparr>
     sample_id ''550000'' =
     (Inr \<lparr>valid = False, v_message = ''OTP expired or not found''\<rparr>,
      \<lparr>redisClient = Some ((sample_db ''2'' ''1'')
          (otpKey sample_id := None, attemptsKey sample_id := None))\<rparr>)"
proof -
  have h1: "redisClient \<lparr>redisClient = Some (sample_db ''2'' ''1'')\<rparr> = Some (sample_db ''2'' ''1'')"
    by simp
  have h2: "redis_get (sample_db ''2'' ''1'') (otpKey sample_id) = Some (sample_hash ''550000'')"
    by (simp add: redis_get_def sample_keys)
  have h3: "sample_hash ''550000'' \<noteq> []" by (simp add: sample_hash_def)
  have h4: "read_attempts (redis_get (sample_db ''2'' ''1'') (attemptsKey sample_id)) = Num 2"
    by (simp add: redis_get_def sample_keys parse_eval)
  have h5: "2 < MAX_ATTEMPTS" by (simp add: MAX_ATTEMPTS_def)
  note c = verifyOTP_single_use [where hashOTP = sample_hash and otp = "''550000''",
      OF h1 h2 h3 h4 h5]
  from c have c1: "verifyOTP sample_hash \<lparr>redisClient = Some (sample_db ''2'' ''1'')\<rparr>
        sample_id ''550000'' =
     (Inr \<lparr>valid = True, v_message = ''OTP verified successfully''\<rparr>,
      \<lparr>redisClient = Some ((sample_db ''2'' ''1'')
          (otpKey sample_id := None, attemptsKey sample_id := None))\<rparr>)"
    by simp
  from c have "verifyOTP sample_hash
      (snd (verifyOTP sample_hash \<lparr>redisClient = Some (sample_db ''2'' ''1'')\<rparr>
        sample_id ''550000'')) sample_id ''550000'' =
     (Inr \<lparr>valid = False, v_message = ''OTP expired or not found''\<rparr>,
      snd (verifyOTP sample_hash \<lparr>redisClient = Some (sample_db ''2'' ''1'')\<rparr>
        sample_id ''550000''))"
    by (rule conjunct2)
  then have c2: "verifyOTP sample_hash
     \<lparr>redisClient = Some ((sample_db ''2'' ''1'')
          (otpKey sample_id := None, attemptsKey sample_id := None))\<rparr>
     sample_id ''550000'' =
     (Inr \<lparr>valid = False, v_message = ''OTP expired or not found''\<rparr>,
      \<lparr>redisClient = Some ((sample_db ''2'' ''1'')
          (otpKey sample_id := None, attemptsKey sample_id := None))\<rparr>)"
    by (simp only: c1 snd_conv)
  from h1 h2 h3 h4 h5 c1 c2 show ?thesis by blast
qed

text \<open>
  C6 (mismatch accounting). A live code record, an attempt counter holding \<open>n\<close> with
  \<open>0 \<le> n < 3\<close> and a submitted code that does not hash to the stored hash: the counter
  becomes \<open>n + 1\<close>, its time to live and every other key are as before, and the answer
  reports \<open>3 - (n + 1)\<close> remaining attempts.
\<close>

theorem verifyOTP_mismatch_accounting:
  assumes "redisClient svc = Some db"
      and "db (otpKey identifier) = Some \<lparr>val = h, ttl = t\<rparr>" and "h \<noteq> []"
      and "hashOTP otp \<noteq> h"
      and "db (attemptsKey identifier) = Some \<lparr>val = show_int n, ttl = t'\<rparr>"
      and "0 \<le> n" and "n < MAX_ATTEMPTS"
  shows "verifyOTP hashOTP svc identifier otp =
           (Inr \<lparr>valid = False,
                 v_message = ''Invalid OTP. '' @ show_int (MAX_ATTEMPTS - (n + 1))
                   @ '' attempt(s) remaining''\<rparr>,
            svc\<lparr>redisClient :=
              Some (db(attemptsKey identifier \<mapsto> \<lparr>val = show_int (n + 1), ttl = t'\<rparr>))\<rparr>)"
proof -
  from assms(6,7) have k: "nat n < 3" "int (nat n) = n" by (simp_all add: MAX_ATTEMPTS_def)
  have e: "show_int n = show_nat (nat n)" using assms(6) by (simp add: show_int_def)
  have e1: "show_int (n + 1) = show_nat (Suc (nat n))"
    using assms(6) show_int_nat [of "Suc (nat n)"] by (simp add: add.commute)
  have e2: "show_int (MAX_ATTEMPTS - (n + 1)) = show_nat (2 - nat n)"
    using assms(6,7) show_int_nat [of "2 - nat n"] by (simp add: MAX_ATTEMPTS_def)
  have "db (attemptsKey identifier) = Some \<lparr>val = show_nat (nat n), ttl = t'\<rparr>"
    using assms(5) by (simp add: e)
  with assms(1,2,3,4) have "verifyOTP hashOTP svc identifier otp =
           (Inr \<lparr>valid = False,
                 v_message = ''Invalid OTP. '' @ show_nat (2 - nat n) @ '' attempt(s) remaining''\<rparr>,
            svc\<lparr>redisClient :=
              Some (db(attemptsKey identifier \<mapsto> \<lparr>val = show_nat (Suc (nat n)), ttl = t'\<rparr>))\<rparr>)"
    using k(1) by (rule verifyOTP_mismatch_count)
  then show ?thesis by (simp only: e1 e2)
qed

theorem verifyOTP_mismatch_accounting_witness:
  "redisClient \<lparr>redisClient = Some (sample_db ''1'' ''1'')\<rparr> = Some (sample_db ''1'' ''1'') \<and>
   sample_db ''1'' ''1'' (otpKey sample_id) = Some \<lparr>val = sample_hash ''550000'', ttl = Some 420\<rparr> \<and>
   sample_hash ''550000'' \<noteq> [] \<and> sample_hash ''000000'' \<noteq> sample_hash ''550000'' \<and>
   sample_db ''1'' ''1'' (attemptsKey sample_id) = Some \<lparr>val = show_int 1, ttl = Some 420\<rparr> \<and>
   (0::int) \<le> 1 \<and> 1 < MAX_ATTEMPTS \<and>
   verifyOTP sample_hash \<lparr>redisClient = Some (sample_db ''1'' ''1'')\<rparr> sample_id ''000000'' =
     (Inr \<lparr>valid = False, v_message = ''Invalid OTP. 1 attempt(s) remaining''\<rparr>,
      \<lparr>redisClient = Some ((sample_db ''1'' ''1'')
          (attemptsKey sample_id \<mapsto> \<lparr>val = ''2'', ttl = Some 420\<rparr>))\<rparr>)"
proof -
  have s1: "show_int 1 = ''1''" "show_int 2 = ''2''"
    by (simp_all add: show_int_def show_nat.simps digit_char_def)
  have h1: "redisClient \<lparr>redisClient = Some (sample_db ''1'' ''1'')\<rparr> = Some (sample_db ''1'' ''1'')"
    by simp
  have h2: "sample_db ''1'' ''1'' (otpKey sample_id) =
      Some \<lparr>val = sample_hash ''550000'', ttl = Some 420\<rparr>"
    by (simp add: sample_keys)
  have h3: "sample_hash ''550000'' \<noteq> []" by (simp add: sample_hash_def)
  have h4: "sample_hash ''000000'' \<noteq> sample_hash ''550000''" by (simp add: sample_hash_def)
  have h5: "sample_db ''1'' ''1'' (attemptsKey sample_id) = Some \<lparr>val = show_int 1, ttl = Some 420\<rparr>"
    by (simp add: sample_keys s1)
  have h6: "(0::int) \<le> 1" by simp
  have h7: "1 < MAX_ATTEMPTS" by (simp add: MAX_ATTEMPTS_def)
  from verifyOTP_mismatch_accounting [where hashOTP = sample_hash and otp = "''000000''", OF h1 h2 h3 h4 h5 h6 h7] h1 h2 h3 h4 h5 h6 h7
  show ?thesis by (simp add: MAX_ATTEMPTS_def s1)
qed

section \<open>Verifier: attempt bound\<close>

lemma show_nat_small:
  "show_nat 0 = ''0''" "show_nat 1 = ''1''" "show_nat 2 = ''2''" "show_nat 3 = ''3''"
  "show_nat (Suc 0) = ''1''" "show_nat (Suc (Suc 0)) = ''2''" "show_nat (Suc (Suc (Suc 0))) = ''3''"
  by (simp_all add: show_nat.simps digit_char_def)

lemma verifyOTP_mismatch_absent:
  assumes "redisClient svc = Some db"
      and "db (otpKey identifier) = Some \<lparr>val = h, ttl = t\<rparr>" and "h \<noteq> []"
      and "hashOTP otp \<noteq> h"
      and "db (attemptsKey identifier) = None"
  shows "verifyOTP hashOTP svc identifier otp =
           (Inr \<lparr>valid = False, v_message = ''Invalid OTP. 2 attempt(s) remaining''\<rparr>,
            svc\<lparr>redisClient := Some (db(attemptsKey identifier \<mapsto> \<lparr>val = ''1'', ttl = None\<rparr>))\<rparr>)"
proof -
  have g: "redis_get db (otpKey identifier) = Some h"
    using assms(2) by (simp add: redis_get_def)
  have a: "read_attempts (redis_get db (attemptsKey identifier)) = Num 0"
    using assms(5) by (simp add: redis_get_def read_attempts_def)
  have nge: "\<not> num_ge (read_attempts (redis_get db (attemptsKey identifier))) MAX_ATTEMPTS"
    by (simp add: a num_ge_def MAX_ATTEMPTS_def)
  have i: "redis_incr db (attemptsKey identifier) =
             Inr (db(attemptsKey identifier \<mapsto> \<lparr>val = ''1'', ttl = None\<rparr>))"
    using assms(5) by (rule redis_incr_absent)
  have m: "num_show (num_rsub MAX_ATTEMPTS (num_add (Num 0) 1)) = ''2''"
    using show_int_nat [of 2]
    by (simp add: num_show_def num_rsub_def num_add_def MAX_ATTEMPTS_def show_nat_small)
  have "verifyOTP hashOTP svc identifier otp =
           (Inr \<lparr>valid = False,
                 v_message = ''Invalid OTP. ''
                   @ num_show (num_rsub MAX_ATTEMPTS
                        (num_add (read_attempts (redis_get db (attemptsKey identifier))) 1))
                   @ '' attempt(s) remaining''\<rparr>,
            svc\<lparr>redisClient := Some (db(attemptsKey identifier \<mapsto> \<lparr>val = ''1'', ttl = None\<rparr>))\<rparr>)"
    using assms(1) g assms(3) nge assms(4) i by (rule verifyOTP_mismatch)
  then show ?thesis by (simp add: a m)
qed

text \<open>Two further mismatches after the first, then any call at all.\<close>

lemma verifyOTP_exhaust_from_one:
  assumes "redisClient svc = Some db"
      and "db (otpKey identifier) = Some \<lparr>val = h, ttl = t\<rparr>" and "h \<noteq> []"
      and "db (attemptsKey identifier) = Some \<lparr>val = ''1'', ttl = tt\<rparr>"
      and "hashOTP c2 \<noteq> h" and "hashOTP c3 \<noteq> h"
  shows "fst (verifyOTP hashOTP svc identifier c2) =
           Inr \<lparr>valid = False, v_message = ''Invalid OTP. 1 attempt(s) remaining''\<rparr> \<and>
         fst (verifyOTP hashOTP (snd (verifyOTP hashOTP svc identifier c2)) identifier c3) =
           Inr \<lparr>valid = False, v_message = ''Invalid OTP. 0 attempt(s) remaining''\<rparr> \<and>
         verifyOTP hashOTP
           (snd (verifyOTP hashOTP (snd (verifyOTP hashOTP svc identifier c2)) identifier c3))
           identifier c =
         (Inr \<lparr>valid = False, v_message = ''Maximum verification attempts exceeded''\<rparr>,
          svc\<lparr>redisClient := Some (db(otpKey identifier := None, attemptsKey identifier := None))\<rparr>)"
proof -
  let ?ak = "attemptsKey identifier" and ?ok = "otpKey identifier"
  have neq: "?ok \<noteq> ?ak" by (rule otpKey_neq_attemptsKey)
  let ?db2 = "db(?ak \<mapsto> \<lparr>val = ''2'', ttl = tt\<rparr>)"
  let ?db3 = "db(?ak \<mapsto> \<lparr>val = ''3'', ttl = tt\<rparr>)"
  let ?s2 = "svc\<lparr>redisClient := Some ?db2\<rparr>"
  let ?s3 = "svc\<lparr>redisClient := Some ?db3\<rparr>"
  have a1: "db ?ak = Some \<lparr>val = show_nat 1, ttl = tt\<rparr>"
    using assms(4) by (simp add: show_nat_small)
  have v2': "verifyOTP hashOTP svc identifier c2 =
      (Inr \<lparr>valid = False,
            v_message = ''Invalid OTP. '' @ show_nat (2 - 1) @ '' attempt(s) remaining''\<rparr>,
       svc\<lparr>redisClient := Some (db(?ak \<mapsto> \<lparr>val = show_nat (Suc 1), ttl = tt\<rparr>))\<rparr>)"
    using assms(1) assms(2) assms(3) assms(5) a1 by (rule verifyOTP_mismatch_count) simp
  have v2: "verifyOTP hashOTP svc identifier c2 =
      (Inr \<lparr>valid = False, v_message = ''Invalid OTP. 1 attempt(s) remaining''\<rparr>, ?s2)"
    unfolding v2' by (simp add: show_nat_small)
  have o2: "?db2 ?ok = Some \<lparr>val = h, ttl = t\<rparr>" using assms(2) neq by simp
  have a2: "?db2 ?ak = Some \<lparr>val = show_nat 2, ttl = tt\<rparr>" by (simp add: show_nat_small)
  have r2: "redisClient ?s2 = Some ?db2" by simp
  have v3': "verifyOTP hashOTP ?s2 identifier c3 =
      (Inr \<lparr>valid = False,
            v_message = ''Invalid OTP. '' @ show_nat (2 - 2) @ '' attempt(s) remaining''\<rparr>,
       ?s2\<lparr>redisClient := Some (?db2(?ak \<mapsto> \<lparr>val = show_nat (Suc 2), ttl = tt\<rparr>))\<rparr>)"
    using r2 o2 assms(3) assms(6) a2 by (rule verifyOTP_mismatch_count) simp
  have v3: "verifyOTP hashOTP ?s2 identifier c3 =
      (Inr \<lparr>valid = False, v_message = ''Invalid OTP. 0 attempt(s) remaining''\<rparr>, ?s3)"
    unfolding v3' by (simp add: show_nat_small)
  have r3: "redisClient ?s3 = Some ?db3" by simp
  have g3: "redis_get ?db3 ?ok = Some h" using assms(2) neq by (simp add: redis_get_def)
  have "read_attempts (redis_get ?db3 ?ak) = Num 3"
    using read_attempts_show_nat [of 3] by (simp add: redis_get_def show_nat_small)
  then have ge: "num_ge (read_attempts (redis_get ?db3 ?ak)) MAX_ATTEMPTS"
    by (simp add: num_ge_def MAX_ATTEMPTS_def)
  have d: "?db3(?ok := None, ?ak := None) = db(?ok := None, ?ak := None)"
    by (rule ext) simp
  have v4': "verifyOTP hashOTP ?s3 identifier c =
      (Inr \<lparr>valid = False, v_message = ''Maximum verification attempts exceeded''\<rparr>,
       ?s3\<lparr>redisClient := Some (?db3(?ok := None, ?ak := None))\<rparr>)"
    using r3 g3 assms(3) ge by (rule verifyOTP_exceeded)
  have v4: "verifyOTP hashOTP ?s3 identifier c =
      (Inr \<lparr>valid = False, v_message = ''Maximum verification attempts exceeded''\<rparr>,
       svc\<lparr>redisClient := Some (db(?ok := None, ?ak := None))\<rparr>)"
    unfolding v4' d by simp
  show ?thesis
    by (simp only: v2 v3 v4 snd_conv fst_conv simp_thms)
qed

text \<open>
  C2 (attempt bound). A live code record whose attempt counter is 0 (as issuance leaves it)
  or absent: three calls with codes that do not hash to the stored hash are answered with
  2, 1 and 0 remaining attempts; the next call, whatever code \<open>c\<close> it submits, is answered
  "Maximum verification attempts exceeded" and leaves the store without the code record and
  without the attempt counter.
\<close>

theorem verifyOTP_attempt_bound:
  assumes "redisClient svc = Some db"
      and "db (otpKey identifier) = Some \<lparr>val = h, ttl = t\<rparr>" and "h \<noteq> []"
      and "db (attemptsKey identifier) = None \<or>
           db (attemptsKey identifier) = Some \<lparr>val = ''0'', ttl = t'\<rparr>"
      and "hashOTP c1 \<noteq> h" and "hashOTP c2 \<noteq> h" and "hashOTP c3 \<noteq> h"
  shows "let s1 = snd (verifyOTP hashOTP svc identifier c1);
             s2 = snd (verifyOTP hashOTP s1 identifier c2);
             s3 = snd (verifyOTP hashOTP s2 identifier c3)
         in fst (verifyOTP hashOTP svc identifier c1) =
              Inr \<lparr>valid = False, v_message = ''Invalid OTP. 2 attempt(s) remaining''\<rparr> \<and>
            fst (verifyOTP hashOTP s1 identifier c2) =
              Inr \<lparr>valid = False, v_message = ''Invalid OTP. 1 attempt(s) remaining''\<rparr> \<and>
            fst (verifyOTP hashOTP s2 identifier c3) =
              Inr \<lparr>valid = False, v_message = ''Invalid OTP. 0 attempt(s) remaining''\<rparr> \<and>
            verifyOTP hashOTP s3 identifier c =
              (Inr \<lparr>valid = False, v_message = ''Maximum verification attempts exceeded''\<rparr>,
               svc\<lparr>redisClient :=
                 Some (db(otpKey identifier := None, attemptsKey identifier := None))\<rparr>)"
proof -
  let ?ak = "attemptsKey identifier" and ?ok = "otpKey identifier"
  have neq: "?ok \<noteq> ?ak" by (rule otpKey_neq_attemptsKey)
  obtain tt where v1: "verifyOTP hashOTP svc identifier c1 =
      (Inr \<lparr>valid = False, v_message = ''Invalid OTP. 2 attempt(s) remaining''\<rparr>,
       svc\<lparr>redisClient := Some (db(?ak \<mapsto> \<lparr>val = ''1'', ttl = tt\<rparr>))\<rparr>)"
  proof (cases "db ?ak = None")
    case True
    have "verifyOTP hashOTP svc identifier c1 =
           (Inr \<lparr>valid = False, v_message = ''Invalid OTP. 2 attempt(s) remaining''\<rparr>,
            svc\<lparr>redisClient := Some (db(?ak \<mapsto> \<lparr>val = ''1'', ttl = None\<rparr>))\<rparr>)"
      using assms(1) assms(2) assms(3) assms(5) True by (rule verifyOTP_mismatch_absent)
    with that show ?thesis by blast
  next
    case False
    with assms(4) have "db ?ak = Some \<lparr>val = show_nat 0, ttl = t'\<rparr>"
      by (simp add: show_nat_small)
    with assms(1) assms(2) assms(3) assms(5) have "verifyOTP hashOTP svc identifier c1 =
        (Inr \<lparr>valid = False,
              v_message = ''Invalid OTP. '' @ show_nat (2 - 0) @ '' attempt(s) remaining''\<rparr>,
         svc\<lparr>redisClient := Some (db(?ak \<mapsto> \<lparr>val = show_nat (Suc 0), ttl = t'\<rparr>))\<rparr>)"
      by (rule verifyOTP_mismatch_count) simp
    then have "verifyOTP hashOTP svc identifier c1 =
        (Inr \<lparr>valid = False, v_message = ''Invalid OTP. 2 attempt(s) remaining''\<rparr>,
         svc\<lparr>redisClient := Some (db(?ak \<mapsto> \<lparr>val = ''1'', ttl = t'\<rparr>))\<rparr>)"
      by (simp add: show_nat_small)
    with that show ?thesis by blast
  qed
  let ?db1 = "db(?ak \<mapsto> \<lparr>val = ''1'', ttl = tt\<rparr>)"
  let ?s1 = "svc\<lparr>redisClient := Some ?db1\<rparr>"
  have r1: "redisClient ?s1 = Some ?db1" by simp
  have o1: "?db1 ?ok = Some \<lparr>val = h, ttl = t\<rparr>" using assms(2) neq by simp
  have a1: "?db1 ?ak = Some \<lparr>val = ''1'', ttl = tt\<rparr>" by simp
  have d: "?db1(?ok := None, ?ak := None) = db(?ok := None, ?ak := None)"
    by (rule ext) simp
  have rest: "fst (verifyOTP hashOTP ?s1 identifier c2) =
           Inr \<lparr>valid = False, v_message = ''Invalid OTP. 1 attempt(s) remaining''\<rparr> \<and>
         fst (verifyOTP hashOTP (snd (verifyOTP hashOTP ?s1 identifier c2)) identifier c3) =
           Inr \<lparr>valid = False, v_message = ''Invalid OTP. 0 attempt(s) remaining''\<rparr> \<and>
         verifyOTP hashOTP
           (snd (verifyOTP hashOTP (snd (verifyOTP hashOTP ?s1 identifier c2)) identifier c3))
           identifier c =
         (Inr \<lparr>valid = False, v_message = ''Maximum verification attempts exceeded''\<rparr>,
          ?s1\<lparr>redisClient := Some (?db1(?ok := None, ?ak := None))\<rparr>)"
    using r1 o1 assms(3) a1 assms(6) assms(7) by (rule verifyOTP_exhaust_from_one)
  have s: "snd (verifyOTP hashOTP svc identifier c1) = ?s1" by (simp add: v1)
  have fin: "?s1\<lparr>redisClient := Some (?db1(?ok := None, ?ak := None))\<rparr> =
             svc\<lparr>redisClient := Some (db(?ok := None, ?ak := None))\<rparr>"
    unfolding d by simp
  from rest have rest': "fst (verifyOTP hashOTP ?s1 identifier c2) =
           Inr \<lparr>valid = False, v_message = ''Invalid OTP. 1 attempt(s) remaining''\<rparr> \<and>
         fst (verifyOTP hashOTP (snd (verifyOTP hashOTP ?s1 identifier c2)) identifier c3) =
           Inr \<lparr>valid = False, v_message = ''Invalid OTP. 0 attempt(s) remaining''\<rparr> \<and>
         verifyOTP hashOTP
           (snd (verifyOTP hashOTP (snd (verifyOTP hashOTP ?s1 identifier c2)) identifier c3))
           identifier c =
         (Inr \<lparr>valid = False, v_message = ''Maximum verification attempts exceeded''\<rparr>,
          svc\<lparr>redisClient := Some (db(?ok := None, ?ak := None))\<rparr>)"
    by (simp only: fin)
  have f1: "fst (verifyOTP hashOTP svc identifier c1) =
      Inr \<lparr>valid = False, v_message = ''Invalid OTP. 2 attempt(s) remaining''\<rparr>"
    by (simp add: v1)
  show ?thesis
    unfolding Let_def s using f1 rest' by blast
qed


theorem verifyOTP_attempt_bound_witness:
  "redisClient \<lparr>redisClient = Some (sample_db ''0'' ''1'')\<rparr> = Some (sample_db ''0'' ''1'') \<and>
   sample_db ''0'' ''1'' (otpKey sample_id) = Some \<lparr>val = sample_hash ''550000'', ttl = Some 420\<rparr> \<and>
   sample_hash ''550000'' \<noteq> [] \<and>
   sample_db ''0'' ''1'' (attemptsKey sample_id) = Some \<lparr>val = ''0'', ttl = Some 420\<rparr> \<and>
   sample_hash ''000000'' \<noteq> sample_hash ''550000'' \<and>
   sample_hash ''111111'' \<noteq> sample_hash ''550000'' \<and>
   sample_hash ''222222'' \<noteq> sample_hash ''550000'' \<and>
   (let s1 = snd (verifyOTP sample_hash \<lparr>redisClient = Some (sample_db ''0'' ''1'')\<rparr>
                    sample_id ''000000'');
        s2 = snd (verifyOTP sample_hash s1 sample_id ''111111'');
        s3 = snd (verifyOTP sample_hash s2 sample_id ''222222'')
    in fst (verifyOTP sample_hash \<lparr>redisClient = Some (sample_db ''0'' ''1'')\<rparr>
              sample_id ''000000'') =
         Inr \<lparr>valid = False, v_message = ''Invalid OTP. 2 attempt(s) remaining''\<rparr> \<and>
       fst (verifyOTP sample_hash s1 sample_id ''111111'') =
         Inr \<lparr>valid = False, v_message = ''Invalid OTP. 1 attempt(s) remaining''\<rparr> \<and>
       fst (verifyOTP sample_hash s2 sample_id ''222222'') =
         Inr \<lparr>valid = False, v_message = ''Invalid OTP. 0 attempt(s) remaining''\<rparr> \<and>
       verifyOTP sample_hash s3 sample_id ''550000'' =
         (Inr \<lparr>valid = False, v_message = ''Maximum verification attempts exceeded''\<rparr>,
          \<lparr>redisClient = Some (sample_db ''0'' ''1'')\<rparr>\<lparr>redisClient :=
            Some ((sample_db ''0'' ''1'')
              (otpKey sample_id := None, attemptsKey sample_id := None))\<rparr>))"
proof -
  have h1: "redisClient \<lparr>redisClient = Some (sample_db ''0'' ''1'')\<rparr> = Some (sample_db ''0'' ''1'')"
    by simp
  have h2: "sample_db ''0'' ''1'' (otpKey sample_id) =
      Some \<lparr>val = sample_hash ''550000'', ttl = Some 420\<rparr>"
    by (simp add: sample_keys)
  have h3: "sample_hash ''550000'' \<noteq> []" by (simp add: sample_hash_def)
  have h4: "sample_db ''0'' ''1'' (attemptsKey sample_id) = Some \<lparr>val = ''0'', ttl = Some 420\<rparr>"
    by (simp add: sample_keys)
  then have h4': "sample_db ''0'' ''1'' (attemptsKey sample_id) = None \<or>
      sample_db ''0'' ''1'' (attemptsKey sample_id) = Some \<lparr>val = ''0'', ttl = Some 420\<rparr>"
    by (rule disjI2)
  have h5: "sample_hash ''000000'' \<noteq> sample_hash ''550000''" by (simp add: sample_hash_def)
  have h6: "sample_hash ''111111'' \<noteq> sample_hash ''550000''" by (simp add: sample_hash_def)
  have h7: "sample_hash ''222222'' \<noteq> sample_hash ''550000''" by (simp add: sample_hash_def)
  note c = verifyOTP_attempt_bound [where hashOTP = sample_hash and ?c1.0 = "''000000''"
      and ?c2.0 = "''111111''" and ?c3.0 = "''222222''" and c = "''550000''",
      OF h1 h2 h3 h4' h5 h6 h7]
  from h1 h2 h3 h4 h5 h6 h7 c show ?thesis by blast
qed

section \<open>Issuance: what storeOTP writes\<close>

lemma rateLimitKey_neq_otpKey: "rateLimitKey a \<noteq> otpKey a"
  using otpKey_neq_rateLimitKey [of a] by simp

lemma rateLimitKey_neq_attemptsKey: "rateLimitKey a \<noteq> attemptsKey b"
  using attemptsKey_neq_rateLimitKey [of b a] by simp

lemma incrementRateLimit_absent:
  assumes "redisClient svc = Some db" and "db (rateLimitKey identifier) = None"
  shows "incrementRateLimit svc identifier =
           (Inr (), svc\<lparr>redisClient := Some (db(rateLimitKey identifier \<mapsto>
              \<lparr>val = ''1'', ttl = Some RATE_LIMIT_WINDOW\<rparr>))\<rparr>)"
  using assms by (simp add: incrementRateLimit_def redis_get_def redis_setEx_def)

lemma incrementRateLimit_count:
  assumes "redisClient svc = Some db"
      and "db (rateLimitKey identifier) = Some \<lparr>val = show_nat n, ttl = t\<rparr>"
      and "int n < 2 ^ 63 - 1"
  shows "incrementRateLimit svc identifier =
           (Inr (), svc\<lparr>redisClient := Some (db(rateLimitKey identifier \<mapsto>
              \<lparr>val = show_nat (Suc n), ttl = t\<rparr>))\<rparr>)"
proof -
  have "redis_incr db (rateLimitKey identifier) =
      Inr (db(rateLimitKey identifier \<mapsto> \<lparr>val = show_nat (Suc n), ttl = t\<rparr>))"
    using assms(2,3) by (rule redis_incr_count)
  with assms(1,2) show ?thesis
    by (simp add: incrementRateLimit_def redis_get_def show_nat_nonempty)
qed

lemma storeOTP_increment:
  assumes "redisClient svc = Some db"
  shows "storeOTP hashOTP svc identifier otp =
           incrementRateLimit
             (svc\<lparr>redisClient := Some (db(otpKey identifier \<mapsto>
                    \<lparr>val = hashOTP otp, ttl = Some OTP_EXPIRY\<rparr>,
                  attemptsKey identifier \<mapsto> \<lparr>val = ''0'', ttl = Some OTP_EXPIRY\<rparr>))\<rparr>)
             identifier"
  using assms by (simp add: storeOTP_def redis_setEx_def Let_def)

lemma storeOTP_absent:
  assumes "redisClient svc = Some db" and "db (rateLimitKey identifier) = None"
  shows "storeOTP hashOTP svc identifier otp =
           (Inr (), svc\<lparr>redisClient := Some (db(
              otpKey identifier \<mapsto> \<lparr>val = hashOTP otp, ttl = Some OTP_EXPIRY\<rparr>,
              attemptsKey identifier \<mapsto> \<lparr>val = ''0'', ttl = Some OTP_EXPIRY\<rparr>,
              rateLimitKey identifier \<mapsto> \<lparr>val = ''1'', ttl = Some RATE_LIMIT_WINDOW\<rparr>))\<rparr>)"
proof -
  let ?db2 = "db(otpKey identifier \<mapsto> \<lparr>val = hashOTP otp, ttl = Some OTP_EXPIRY\<rparr>,
                 attemptsKey identifier \<mapsto> \<lparr>val = ''0'', ttl = Some OTP_EXPIRY\<rparr>)"
  have r: "redisClient (svc\<lparr>redisClient := Some ?db2\<rparr>) = Some ?db2" by simp
  have k: "?db2 (rateLimitKey identifier) = None"
    using assms(2) by (simp add: rateLimitKey_neq_otpKey rateLimitKey_neq_attemptsKey)
  show ?thesis
    unfolding storeOTP_increment [OF assms(1)] incrementRateLimit_absent [OF r k] by simp
qed

lemma storeOTP_count:
  assumes "redisClient svc = Some db"
      and "db (rateLimitKey identifier) = Some \<lparr>val = show_nat n, ttl = t\<rparr>"
      and "int n < 2 ^ 63 - 1"
  shows "storeOTP hashOTP svc identifier otp =
           (Inr (), svc\<lparr>redisClient := Some (db(
              otpKey identifier \<mapsto> \<lparr>val = hashOTP otp, ttl = Some OTP_EXPIRY\<rparr>,
              attemptsKey identifier \<mapsto> \<lparr>val = ''0'', ttl = Some OTP_EXPIRY\<rparr>,
              rateLimitKey identifier \<mapsto> \<lparr>val = show_nat (Suc n), ttl = t\<rparr>))\<rparr>)"
proof -
  let ?db2 = "db(otpKey identifier \<mapsto> \<lparr>val = hashOTP otp, ttl = Some OTP_EXPIRY\<rparr>,
                 attemptsKey identifier \<mapsto> \<lparr>val = ''0'', ttl = Some OTP_EXPIRY\<rparr>)"
  have r: "redisClient (svc\<lparr>redisClient := Some ?db2\<rparr>) = Some ?db2" by simp
  have k: "?db2 (rateLimitKey identifier) = Some \<lparr>val = show_nat n, ttl = t\<rparr>"
    using assms(2) by (simp add: rateLimitKey_neq_otpKey rateLimitKey_neq_attemptsKey)
  show ?thesis
    unfolding storeOTP_increment [OF assms(1)] incrementRateLimit_count [OF r k assms(3)] by simp
qed

lemma incrementRateLimit_other:
  assumes "redisClient svc = Some db" and "k \<noteq> rateLimitKey identifier"
  shows "Option.bind (redisClient (snd (incrementRateLimit svc identifier))) (\<lambda>d. d k) = db k"
  using assms
  by (auto simp: incrementRateLimit_def Let_def redis_setEx_def redis_incr_def
      split: option.splits sum.splits if_splits)

lemma storeOTP_writes:
  assumes "redisClient svc = Some db"
  shows "Option.bind (redisClient (snd (storeOTP hashOTP svc identifier otp)))
           (\<lambda>d. d (otpKey identifier)) = Some \<lparr>val = hashOTP otp, ttl = Some OTP_EXPIRY\<rparr>"
    and "Option.bind (redisClient (snd (storeOTP hashOTP svc identifier otp)))
           (\<lambda>d. d (attemptsKey identifier)) = Some \<lparr>val = ''0'', ttl = Some OTP_EXPIRY\<rparr>"
proof -
  let ?db2 = "db(otpKey identifier \<mapsto> \<lparr>val = hashOTP otp, ttl = Some OTP_EXPIRY\<rparr>,
                 attemptsKey identifier \<mapsto> \<lparr>val = ''0'', ttl = Some OTP_EXPIRY\<rparr>)"
  let ?svc2 = "svc\<lparr>redisClient := Some ?db2\<rparr>"
  have r: "redisClient ?svc2 = Some ?db2" by simp
  have e: "storeOTP hashOTP svc identifier otp = incrementRateLimit ?svc2 identifier"
    using assms by (rule storeOTP_increment)
  have "otpKey identifier \<noteq> rateLimitKey identifier" by (rule otpKey_neq_rateLimitKey)
  with r have "Option.bind (redisClient (snd (incrementRateLimit ?svc2 identifier)))
      (\<lambda>d. d (otpKey identifier)) = ?db2 (otpKey identifier)"
    by (rule incrementRateLimit_other)
  then show "Option.bind (redisClient (snd (storeOTP hashOTP svc identifier otp)))
           (\<lambda>d. d (otpKey identifier)) = Some \<lparr>val = hashOTP otp, ttl = Some OTP_EXPIRY\<rparr>"
    unfolding e using otpKey_neq_attemptsKey [of "identifier"] by simp
  have "attemptsKey identifier \<noteq> rateLimitKey identifier" by (rule attemptsKey_neq_rateLimitKey)
  with r have "Option.bind (redisClient (snd (incrementRateLimit ?svc2 identifier)))
      (\<lambda>d. d (attemptsKey identifier)) = ?db2 (attemptsKey identifier)"
    by (rule incrementRateLimit_other)
  then show "Option.bind (redisClient (snd (storeOTP hashOTP svc identifier otp)))
           (\<lambda>d. d (attemptsKey identifier)) = Some \<lparr>val = ''0'', ttl = Some OTP_EXPIRY\<rparr>"
    unfolding e by simp
qed

lemma show_nat_Suc_not_zero: "show_nat (Suc n) \<noteq> ''0''"
proof
  assume "show_nat (Suc n) = ''0''"
  then have "show_nat (Suc n) = show_nat 0" by (simp add: show_nat_small)
  then show False using show_nat_inj by blast
qed

text \<open>
  C5 (reissuance resets attempts, not rate). Whatever the store holds for the identifier, so
  also a live code record and a non-zero attempt counter, issuing a code leaves the code
  record holding the hash of the new code and the attempt counter holding 0, both with the
  code lifetime as time to live. The rate counter is not reset to zero: an absent counter
  starts at 1 with the rate window as time to live, and a counter holding \<open>n\<close> is raised to
  \<open>n + 1\<close> under its old time to live. No other key changes.
\<close>

theorem storeOTP_reissue:
  "(redisClient svc = Some db \<longrightarrow>
      Option.bind (redisClient (snd (storeOTP hashOTP svc identifier otp)))
        (\<lambda>d. d (otpKey identifier)) = Some \<lparr>val = hashOTP otp, ttl = Some OTP_EXPIRY\<rparr> \<and>
      Option.bind (redisClient (snd (storeOTP hashOTP svc identifier otp)))
        (\<lambda>d. d (attemptsKey identifier)) = Some \<lparr>val = ''0'', ttl = Some OTP_EXPIRY\<rparr>) \<and>
   (redisClient svc = Some db \<and> db (rateLimitKey identifier) = None \<longrightarrow>
      storeOTP hashOTP svc identifier otp =
        (Inr (), svc\<lparr>redisClient := Some (db(
           otpKey identifier \<mapsto> \<lparr>val = hashOTP otp, ttl = Some OTP_EXPIRY\<rparr>,
           attemptsKey identifier \<mapsto> \<lparr>val = ''0'', ttl = Some OTP_EXPIRY\<rparr>,
           rateLimitKey identifier \<mapsto> \<lparr>val = ''1'', ttl = Some RATE_LIMIT_WINDOW\<rparr>))\<rparr>)) \<and>
   (redisClient svc = Some db \<and>
    db (rateLimitKey identifier) = Some \<lparr>val = show_nat n, ttl = t\<rparr> \<and> int n < 2 ^ 63 - 1 \<longrightarrow>
      storeOTP hashOTP svc identifier otp =
        (Inr (), svc\<lparr>redisClient := Some (db(
           otpKey identifier \<mapsto> \<lparr>val = hashOTP otp, ttl = Some OTP_EXPIRY\<rparr>,
           attemptsKey identifier \<mapsto> \<lparr>val = ''0'', ttl = Some OTP_EXPIRY\<rparr>,
           rateLimitKey identifier \<mapsto> \<lparr>val = show_nat (n + 1), ttl = t\<rparr>))\<rparr>) \<and>
      show_nat (n + 1) \<noteq> ''0'')"
proof (intro conjI impI)
  assume a: "redisClient svc = Some db"
  then show "Option.bind (redisClient (snd (storeOTP hashOTP svc identifier otp)))
        (\<lambda>d. d (otpKey identifier)) = Some \<lparr>val = hashOTP otp, ttl = Some OTP_EXPIRY\<rparr>"
    by (rule storeOTP_writes(1))
  from a show "Option.bind (redisClient (snd (storeOTP hashOTP svc identifier otp)))
        (\<lambda>d. d (attemptsKey identifier)) = Some \<lparr>val = ''0'', ttl = Some OTP_EXPIRY\<rparr>"
    by (rule storeOTP_writes(2))
next
  assume "redisClient svc = Some db \<and> db (rateLimitKey identifier) = None"
  then show "storeOTP hashOTP svc identifier otp =
        (Inr (), svc\<lparr>redisClient := Some (db(
           otpKey identifier \<mapsto> \<lparr>val = hashOTP otp, ttl = Some OTP_EXPIRY\<rparr>,
           attemptsKey identifier \<mapsto> \<lparr>val = ''0'', ttl = Some OTP_EXPIRY\<rparr>,
           rateLimitKey identifier \<mapsto> \<lparr>val = ''1'', ttl = Some RATE_LIMIT_WINDOW\<rparr>))\<rparr>)"
    using storeOTP_absent by blast
next
  assume a: "redisClient svc = Some db \<and>
    db (rateLimitKey identifier) = Some \<lparr>val = show_nat n, ttl = t\<rparr> \<and> int n < 2 ^ 63 - 1"
  then have "storeOTP hashOTP svc identifier otp =
        (Inr (), svc\<lparr>redisClient := Some (db(
           otpKey identifier \<mapsto> \<lparr>val = hashOTP otp, ttl = Some OTP_EXPIRY\<rparr>,
           attemptsKey identifier \<mapsto> \<lparr>val = ''0'', ttl = Some OTP_EXPIRY\<rparr>,
           rateLimitKey identifier \<mapsto> \<lparr>val = show_nat (Suc n), ttl = t\<rparr>))\<rparr>)"
    using storeOTP_count by blast
  then show "storeOTP hashOTP svc identifier otp =
        (Inr (), svc\<lparr>redisClient := Some (db(
           otpKey identifier \<mapsto> \<lparr>val = hashOTP otp, ttl = Some OTP_EXPIRY\<rparr>,
           attemptsKey identifier \<mapsto> \<lparr>val = ''0'', ttl = Some OTP_EXPIRY\<rparr>,
           rateLimitKey identifier \<mapsto> \<lparr>val = show_nat (n + 1), ttl = t\<rparr>))\<rparr>)"
    by simp
  show "show_nat (n + 1) \<noteq> ''0''" using show_nat_Suc_not_zero [of n] by simp
qed


theorem storeOTP_reissue_witness:
  "redisClient \<lparr>redisClient = Some (sample_db ''2'' ''1'')\<rparr> = Some (sample_db ''2'' ''1'') \<and>
   sample_db ''2'' ''1'' (otpKey sample_id) = Some \<lparr>val = sample_hash ''550000'', ttl = Some 420\<rparr> \<and>
   sample_db ''2'' ''1'' (attemptsKey sample_id) = Some \<lparr>val = ''2'', ttl = Some 420\<rparr> \<and>
   sample_db ''2'' ''1'' (rateLimitKey sample_id) = Some \<lparr>val = show_nat 1, ttl = Some 3000\<rparr> \<and>
   int 1 < 2 ^ 63 - 1 \<and>
   storeOTP sample_hash \<lparr>redisClient = Some (sample_db ''2'' ''1'')\<rparr> sample_id ''123456'' =
     (Inr (), \<lparr>redisClient = Some (sample_db ''2'' ''1'')\<rparr>\<lparr>redisClient :=
        Some ((sample_db ''2'' ''1'')(
          otpKey sample_id \<mapsto> \<lparr>val = sample_hash ''123456'', ttl = Some OTP_EXPIRY\<rparr>,
          attemptsKey sample_id \<mapsto> \<lparr>val = ''0'', ttl = Some OTP_EXPIRY\<rparr>,
          rateLimitKey sample_id \<mapsto> \<lparr>val = show_nat (1 + 1), ttl = Some 3000\<rparr>))\<rparr>) \<and>
   show_nat (1 + 1) = ''2'' \<and>
   redisClient \<lparr>redisClient = Some Map.empty\<rparr> = Some Map.empty \<and>
   (Map.empty :: redis) (rateLimitKey sample_id) = None \<and>
   storeOTP sample_hash \<lparr>redisClient = Some Map.empty\<rparr> sample_id ''123456'' =
     (Inr (), \<lparr>redisClient = Some Map.empty\<rparr>\<lparr>redisClient :=
        Some (Map.empty(
          otpKey sample_id \<mapsto> \<lparr>val = sample_hash ''123456'', ttl = Some OTP_EXPIRY\<rparr>,
          attemptsKey sample_id \<mapsto> \<lparr>val = ''0'', ttl = Some OTP_EXPIRY\<rparr>,
          rateLimitKey sample_id \<mapsto> \<lparr>val = ''1'', ttl = Some RATE_LIMIT_WINDOW\<rparr>))\<rparr>)"
proof -
  have h1: "redisClient \<lparr>redisClient = Some (sample_db ''2'' ''1'')\<rparr> = Some (sample_db ''2'' ''1'')"
    by simp
  have c1: "sample_db ''2'' ''1'' (otpKey sample_id) =
      Some \<lparr>val = sample_hash ''550000'', ttl = Some 420\<rparr>"
    by (simp add: sample_keys)
  have c2: "sample_db ''2'' ''1'' (attemptsKey sample_id) = Some \<lparr>val = ''2'', ttl = Some 420\<rparr>"
    by (simp add: sample_keys)
  have h2: "sample_db ''2'' ''1'' (rateLimitKey sample_id) =
      Some \<lparr>val = show_nat 1, ttl = Some 3000\<rparr>"
    by (simp add: sample_keys show_nat_small)
  have h3: "int 1 < 2 ^ 63 - 1" by simp
  have s2: "show_nat (1 + 1) = ''2''" by (simp add: show_nat.simps digit_char_def)
  have e1: "redisClient \<lparr>redisClient = Some Map.empty\<rparr> = Some (Map.empty :: redis)" by simp
  have e2: "(Map.empty :: redis) (rateLimitKey sample_id) = None" by simp
  note a = storeOTP_reissue [where svc = "\<lparr>redisClient = Some (sample_db ''2'' ''1'')\<rparr>"
      and db = "sample_db ''2'' ''1''" and hashOTP = sample_hash and ?identifier = sample_id
      and otp = "''123456''" and n = 1 and t = "Some 3000"]
  note b = storeOTP_reissue [where svc = "\<lparr>redisClient = Some Map.empty\<rparr>"
      and db = Map.empty and hashOTP = sample_hash and ?identifier = sample_id
      and otp = "''123456''" and n = 1 and t = "Some 3000"]
  from a h1 h2 h3 have A: "storeOTP sample_hash \<lparr>redisClient = Some (sample_db ''2'' ''1'')\<rparr>
      sample_id ''123456'' =
     (Inr (), \<lparr>redisClient = Some (sample_db ''2'' ''1'')\<rparr>\<lparr>redisClient :=
        Some ((sample_db ''2'' ''1'')(
          otpKey sample_id \<mapsto> \<lparr>val = sample_hash ''123456'', ttl = Some OTP_EXPIRY\<rparr>,
          attemptsKey sample_id \<mapsto> \<lparr>val = ''0'', ttl = Some OTP_EXPIRY\<rparr>,
          rateLimitKey sample_id \<mapsto> \<lparr>val = show_nat (1 + 1), ttl = Some 3000\<rparr>))\<rparr>)"
    by blast
  from b e1 e2 have B: "storeOTP sample_hash \<lparr>redisClient = Some Map.empty\<rparr> sample_id ''123456'' =
     (Inr (), \<lparr>redisClient = Some Map.empty\<rparr>\<lparr>redisClient :=
        Some (Map.empty(
          otpKey sample_id \<mapsto> \<lparr>val = sample_hash ''123456'', ttl = Some OTP_EXPIRY\<rparr>,
          attemptsKey sample_id \<mapsto> \<lparr>val = ''0'', ttl = Some OTP_EXPIRY\<rparr>,
          rateLimitKey sample_id \<mapsto> \<lparr>val = ''1'', ttl = Some RATE_LIMIT_WINDOW\<rparr>))\<rparr>)"
    by blast
  from h1 c1 c2 h2 h3 A s2 e1 e2 B show ?thesis by blast
qed

section \<open>Issuance through the messaging service\<close>

lemma checkRateLimit_state: "snd (checkRateLimit svc identifier) = svc"
  by (simp add: checkRateLimit_def split: option.splits)

lemma checkRateLimit_absent:
  assumes "redisClient svc = Some db" and "db (rateLimitKey identifier) = None"
  shows "checkRateLimit svc identifier = (Inr Allowed, svc)"
  using assms by (simp add: checkRateLimit_def redis_get_def)

lemma checkRateLimit_count:
  assumes "redisClient svc = Some db"
      and "db (rateLimitKey identifier) = Some \<lparr>val = show_nat n, ttl = t\<rparr>"
  shows "checkRateLimit svc identifier =
           (if 3 \<le> n then Inr (Denied ''Rate limit exceeded. Maximum 3 OTPs per hour.'')
            else Inr Allowed, svc)"
  using assms
  by (simp add: checkRateLimit_def redis_get_def parseInt_show_nat show_nat_nonempty
      num_ge_def MAX_OTP_PER_HOUR_def)

lemma sendOTP_denied:
  assumes "fst (checkRateLimit (otpService ms) identifier) = Inr (Denied m)"
  shows "sendOTP hashOTP r ms ch identifier brandName =
           (Inr \<lparr>success = False, message = m, data = None\<rparr>, ms, [])"
proof -
  have "checkRateLimit (otpService ms) identifier = (Inr (Denied m), otpService ms)"
    using assms checkRateLimit_state [of "otpService ms" "identifier"]
    by (cases "checkRateLimit (otpService ms) identifier") simp
  then show ?thesis by (simp add: sendOTP_def)
qed

lemma sendOTP_allowed:
  assumes "fst (checkRateLimit (otpService ms) identifier) = Inr Allowed"
      and "storeOTP hashOTP (otpService ms) identifier (generateOTP r) = (Inr (), svc1)"
  shows "sendOTP hashOTP r ms ch identifier brandName =
           (let (result, calls) =
                  (if ch = SMS then SMSService_sendOTP (smsService ms) identifier (generateOTP r)
                   else EmailService_sendOTP (emailService ms) identifier (generateOTP r) brandName)
            in (Inr (if success result
                     then \<lparr>success = True,
                           message = ''OTP sent successfully via '' @ channel_str ch,
                           data = None\<rparr>
                     else result),
                ms\<lparr>otpService := svc1\<rparr>, calls))"
proof -
  have "checkRateLimit (otpService ms) identifier = (Inr Allowed, otpService ms)"
    using assms(1) checkRateLimit_state [of "otpService ms" "identifier"]
    by (cases "checkRateLimit (otpService ms) identifier") simp
  with assms(2) show ?thesis by (simp add: sendOTP_def Let_def)
qed

lemma sendOTP_allowed_state:
  assumes "fst (checkRateLimit (otpService ms) identifier) = Inr Allowed"
      and "storeOTP hashOTP (otpService ms) identifier (generateOTP r) = (Inr (), svc1)"
  shows "fst (snd (sendOTP hashOTP r ms ch identifier brandName)) = ms\<lparr>otpService := svc1\<rparr>"
  unfolding sendOTP_allowed [OF assms] by (simp add: Let_def split: prod.splits)

text \<open>The first issuance of a rate window, and a later one below the limit.\<close>

lemma sendOTP_first:
  assumes "redisClient (otpService ms) = Some db" and "db (rateLimitKey identifier) = None"
  shows "fst (checkRateLimit (otpService ms) identifier) = Inr Allowed \<and>
         fst (snd (sendOTP hashOTP r ms ch identifier brandName)) =
           ms\<lparr>otpService := (otpService ms)\<lparr>redisClient := Some (db(
              otpKey identifier \<mapsto> \<lparr>val = hashOTP (generateOTP r), ttl = Some OTP_EXPIRY\<rparr>,
              attemptsKey identifier \<mapsto> \<lparr>val = ''0'', ttl = Some OTP_EXPIRY\<rparr>,
              rateLimitKey identifier \<mapsto> \<lparr>val = ''1'', ttl = Some RATE_LIMIT_WINDOW\<rparr>))\<rparr>\<rparr>"
proof -
  have a: "fst (checkRateLimit (otpService ms) identifier) = Inr Allowed"
    using checkRateLimit_absent [OF assms] by simp
  from a storeOTP_absent [OF assms] show ?thesis
    by (simp add: sendOTP_allowed_state)
qed

lemma sendOTP_next:
  assumes "redisClient (otpService ms) = Some db"
      and "db (rateLimitKey identifier) = Some \<lparr>val = show_nat n, ttl = t\<rparr>" and "n < 3"
  shows "fst (checkRateLimit (otpService ms) identifier) = Inr Allowed \<and>
         fst (snd (sendOTP hashOTP r ms ch identifier brandName)) =
           ms\<lparr>otpService := (otpService ms)\<lparr>redisClient := Some (db(
              otpKey identifier \<mapsto> \<lparr>val = hashOTP (generateOTP r), ttl = Some OTP_EXPIRY\<rparr>,
              attemptsKey identifier \<mapsto> \<lparr>val = ''0'', ttl = Some OTP_EXPIRY\<rparr>,
              rateLimitKey identifier \<mapsto> \<lparr>val = show_nat (Suc n), ttl = t\<rparr>))\<rparr>\<rparr>"
proof -
  have a: "fst (checkRateLimit (otpService ms) identifier) = Inr Allowed"
    using checkRateLimit_count [OF assms(1,2)] assms(3) by simp
  from assms(3) have "int n < 2 ^ 63 - 1" by simp
  from a storeOTP_count [OF assms(1,2) this] show ?thesis
    by (simp add: sendOTP_allowed_state)
qed

section \<open>Rate bound\<close>

lemma issued_again:
  "(db(otpKey i \<mapsto> a, attemptsKey i \<mapsto> b, rateLimitKey i \<mapsto> c))
      (otpKey i \<mapsto> a', attemptsKey i \<mapsto> b', rateLimitKey i \<mapsto> c') =
   db(otpKey i \<mapsto> a', attemptsKey i \<mapsto> b', rateLimitKey i \<mapsto> c')"
  by (rule ext) simp

text \<open>
  C3 (rate bound). An identifier without a rate counter: the check allows the first, the
  second and the third request, each of which stores its code and leaves the counter at 1,
  2 and 3 under the time to live of the rate window set by the first; the fourth request is
  answered with the rate-limit message, changes nothing and reaches no provider.
\<close>

theorem sendOTP_rate_bound:
  assumes "redisClient (otpService ms) = Some db" and "db (rateLimitKey identifier) = None"
  shows "let ms1 = fst (snd (sendOTP hashOTP r1 ms ch1 identifier b1));
             ms2 = fst (snd (sendOTP hashOTP r2 ms1 ch2 identifier b2));
             ms3 = fst (snd (sendOTP hashOTP r3 ms2 ch3 identifier b3));
             stored = (\<lambda>r k. db(
               otpKey identifier \<mapsto> \<lparr>val = hashOTP (generateOTP r), ttl = Some OTP_EXPIRY\<rparr>,
               attemptsKey identifier \<mapsto> \<lparr>val = ''0'', ttl = Some OTP_EXPIRY\<rparr>,
               rateLimitKey identifier \<mapsto> \<lparr>val = k, ttl = Some RATE_LIMIT_WINDOW\<rparr>))
         in fst (checkRateLimit (otpService ms) identifier) = Inr Allowed \<and>
            redisClient (otpService ms1) = Some (stored r1 ''1'') \<and>
            fst (checkRateLimit (otpService ms1) identifier) = Inr Allowed \<and>
            redisClient (otpService ms2) = Some (stored r2 ''2'') \<and>
            fst (checkRateLimit (otpService ms2) identifier) = Inr Allowed \<and>
            redisClient (otpService ms3) = Some (stored r3 ''3'') \<and>
            sendOTP hashOTP r4 ms3 ch4 identifier b4 =
              (Inr \<lparr>success = False,
                    message = ''Rate limit exceeded. Maximum 3 OTPs per hour.'',
                    data = None\<rparr>, ms3, [])"
proof -
  let ?stored = "\<lambda>r k. db(
      otpKey identifier \<mapsto> \<lparr>val = hashOTP (generateOTP r), ttl = Some OTP_EXPIRY\<rparr>,
      attemptsKey identifier \<mapsto> \<lparr>val = ''0'', ttl = Some OTP_EXPIRY\<rparr>,
      rateLimitKey identifier \<mapsto> \<lparr>val = k, ttl = Some RATE_LIMIT_WINDOW\<rparr>)"
  let ?ms1 = "fst (snd (sendOTP hashOTP r1 ms ch1 identifier b1))"
  let ?ms2 = "fst (snd (sendOTP hashOTP r2 ?ms1 ch2 identifier b2))"
  let ?ms3 = "fst (snd (sendOTP hashOTP r3 ?ms2 ch3 identifier b3))"
  have s0: "fst (checkRateLimit (otpService ms) identifier) = Inr Allowed \<and>
      ?ms1 = ms\<lparr>otpService := (otpService ms)\<lparr>redisClient := Some (?stored r1 ''1'')\<rparr>\<rparr>"
    using assms by (rule sendOTP_first)
  then have d1: "redisClient (otpService ?ms1) = Some (?stored r1 ''1'')" by simp
  have k1: "?stored r1 ''1'' (rateLimitKey identifier) =
      Some \<lparr>val = show_nat 1, ttl = Some RATE_LIMIT_WINDOW\<rparr>"
    by (simp add: show_nat_small)
  have s1: "fst (checkRateLimit (otpService ?ms1) identifier) = Inr Allowed \<and>
      ?ms2 = ?ms1\<lparr>otpService := (otpService ?ms1)\<lparr>redisClient := Some ((?stored r1 ''1'')(
        otpKey identifier \<mapsto> \<lparr>val = hashOTP (generateOTP r2), ttl = Some OTP_EXPIRY\<rparr>,
        attemptsKey identifier \<mapsto> \<lparr>val = ''0'', ttl = Some OTP_EXPIRY\<rparr>,
        rateLimitKey identifier \<mapsto> \<lparr>val = show_nat (Suc 1), ttl = Some RATE_LIMIT_WINDOW\<rparr>))\<rparr>\<rparr>"
    using d1 k1 by (rule sendOTP_next) simp
  then have d2: "redisClient (otpService ?ms2) = Some (?stored r2 ''2'')"
    by (simp add: issued_again show_nat_small)
  have k2: "?stored r2 ''2'' (rateLimitKey identifier) =
      Some \<lparr>val = show_nat 2, ttl = Some RATE_LIMIT_WINDOW\<rparr>"
    by (simp add: show_nat_small)
  have s2: "fst (checkRateLimit (otpService ?ms2) identifier) = Inr Allowed \<and>
      ?ms3 = ?ms2\<lparr>otpService := (otpService ?ms2)\<lparr>redisClient := Some ((?stored r2 ''2'')(
        otpKey identifier \<mapsto> \<lparr>val = hashOTP (generateOTP r3), ttl = Some OTP_EXPIRY\<rparr>,
        attemptsKey identifier \<mapsto> \<lparr>val = ''0'', ttl = Some OTP_EXPIRY\<rparr>,
        rateLimitKey identifier \<mapsto> \<lparr>val = show_nat (Suc 2), ttl = Some RATE_LIMIT_WINDOW\<rparr>))\<rparr>\<rparr>"
    using d2 k2 by (rule sendOTP_next) simp
  then have d3: "redisClient (otpService ?ms3) = Some (?stored r3 ''3'')"
    by (simp add: issued_again show_nat_small)
  have k3: "?stored r3 ''3'' (rateLimitKey identifier) =
      Some \<lparr>val = show_nat 3, ttl = Some RATE_LIMIT_WINDOW\<rparr>"
    by (simp add: show_nat_small)
  have "fst (checkRateLimit (otpService ?ms3) identifier) =
      Inr (Denied ''Rate limit exceeded. Maximum 3 OTPs per hour.'')"
    using checkRateLimit_count [OF d3 k3] by simp
  then have s3: "sendOTP hashOTP r4 ?ms3 ch4 identifier b4 =
      (Inr \<lparr>success = False, message = ''Rate limit exceeded. Maximum 3 OTPs per hour.'',
            data = None\<rparr>, ?ms3, [])"
    by (rule sendOTP_denied)
  from s0 s1 s2 have a: "fst (checkRateLimit (otpService ms) identifier) = Inr Allowed"
    "fst (checkRateLimit (otpService ?ms1) identifier) = Inr Allowed"
    "fst (checkRateLimit (otpService ?ms2) identifier) = Inr Allowed"
    by blast+
  show ?thesis
    unfolding Let_def using a d1 d2 d3 s3 by blast
qed

theorem sendOTP_rate_bound_witness:
  "redisClient (otpService (sample_ms Map.empty)) = Some Map.empty \<and>
   (Map.empty :: redis) (rateLimitKey sample_id) = None \<and>
   (let ms1 = fst (snd (sendOTP sample_hash 0 (sample_ms Map.empty) SMS sample_id None));
        ms2 = fst (snd (sendOTP sample_hash (1 / 2) ms1 Email sample_id None));
        ms3 = fst (snd (sendOTP sample_hash (1 / 4) ms2 SMS sample_id None));
        stored = (\<lambda>r k. Map.empty(
          otpKey sample_id \<mapsto> \<lparr>val = sample_hash (generateOTP r), ttl = Some OTP_EXPIRY\<rparr>,
          attemptsKey sample_id \<mapsto> \<lparr>val = ''0'', ttl = Some OTP_EXPIRY\<rparr>,
          rateLimitKey sample_id \<mapsto> \<lparr>val = k, ttl = Some RATE_LIMIT_WINDOW\<rparr>))
    in fst (checkRateLimit (otpService (sample_ms Map.empty)) sample_id) = Inr Allowed \<and>
       redisClient (otpService ms1) = Some (stored 0 ''1'') \<and>
       fst (checkRateLimit (otpService ms1) sample_id) = Inr Allowed \<and>
       redisClient (otpService ms2) = Some (stored (1 / 2) ''2'') \<and>
       fst (checkRateLimit (otpService ms2) sample_id) = Inr Allowed \<and>
       redisClient (otpService ms3) = Some (stored (1 / 4) ''3'') \<and>
       sendOTP sample_hash (3 / 4) ms3 Email sample_id None =
         (Inr \<lparr>success = False,
               message = ''Rate limit exceeded. Maximum 3 OTPs per hour.'',
               data = None\<rparr>, ms3, []))"
proof -
  have h1: "redisClient (otpService (sample_ms Map.empty)) = Some Map.empty"
    by (simp add: sample_ms_def)
  have h2: "(Map.empty :: redis) (rateLimitKey sample_id) = None" by simp
  note c = sendOTP_rate_bound [where hashOTP = sample_hash and ?r1.0 = 0 and ?r2.0 = "1 / 2"
      and ?r3.0 = "1 / 4" and ?r4.0 = "3 / 4" and ?ch1.0 = SMS and ?ch2.0 = Email
      and ?ch3.0 = SMS and ?ch4.0 = Email and ?b1.0 = None and ?b2.0 = None and ?b3.0 = None
      and ?b4.0 = None, OF h1 h2]
  from h1 h2 c show ?thesis by blast
qed

section \<open>The rate-limit check charges nothing\<close>

lemma incrementRateLimit_failed:
  assumes "fst (incrementRateLimit svc identifier) \<noteq> Inr ()"
  shows "snd (incrementRateLimit svc identifier) = svc"
  using assms
  by (auto simp: incrementRateLimit_def Let_def split: option.splits sum.splits if_splits)

lemma storeOTP_failed_rate:
  assumes "fst (storeOTP hashOTP svc identifier otp) \<noteq> Inr ()"
  shows "Option.bind (redisClient (snd (storeOTP hashOTP svc identifier otp)))
           (\<lambda>db. db (rateLimitKey identifier)) =
         Option.bind (redisClient svc) (\<lambda>db. db (rateLimitKey identifier))"
proof (cases "redisClient svc")
  case None
  then show ?thesis by (simp add: storeOTP_def)
next
  case (Some db)
  let ?svc2 = "svc\<lparr>redisClient := Some (db(otpKey identifier \<mapsto>
        \<lparr>val = hashOTP otp, ttl = Some OTP_EXPIRY\<rparr>,
      attemptsKey identifier \<mapsto> \<lparr>val = ''0'', ttl = Some OTP_EXPIRY\<rparr>))\<rparr>"
  have e: "storeOTP hashOTP svc identifier otp = incrementRateLimit ?svc2 identifier"
    using Some by (rule storeOTP_increment)
  with assms have "snd (incrementRateLimit ?svc2 identifier) = ?svc2"
    by (simp add: incrementRateLimit_failed)
  with e Some show ?thesis
    by (simp add: rateLimitKey_neq_otpKey rateLimitKey_neq_attemptsKey)
qed

lemma verifyOTP_rate:
  "Option.bind (redisClient (snd (verifyOTP hashOTP svc identifier otp)))
     (\<lambda>db. db (rateLimitKey identifier)) =
   Option.bind (redisClient svc) (\<lambda>db. db (rateLimitKey identifier))"
  by (auto simp: verifyOTP_def Let_def redis_del_def redis_incr_def
        rateLimitKey_neq_otpKey rateLimitKey_neq_attemptsKey
      split: option.splits sum.splits if_splits)

lemma sendOTP_rate_changed:
  assumes "Option.bind (redisClient (otpService (fst (snd (sendOTP hashOTP r ms ch identifier b)))))
             (\<lambda>db. db (rateLimitKey identifier)) \<noteq>
           Option.bind (redisClient (otpService ms)) (\<lambda>db. db (rateLimitKey identifier))"
  shows "fst (checkRateLimit (otpService ms) identifier) = Inr Allowed \<and>
         fst (storeOTP hashOTP (otpService ms) identifier (generateOTP r)) = Inr ()"
proof -
  obtain c where c: "checkRateLimit (otpService ms) identifier = (c, otpService ms)"
    using checkRateLimit_state [of "otpService ms" "identifier"]
    by (cases "checkRateLimit (otpService ms) identifier") simp
  obtain u svc1 where s: "storeOTP hashOTP (otpService ms) identifier (generateOTP r) = (u, svc1)"
    by (cases "storeOTP hashOTP (otpService ms) identifier (generateOTP r)")
  show ?thesis
  proof (cases c)
    case (Inl e)
    with c assms show ?thesis by (simp add: sendOTP_def)
  next
    case (Inr res)
    show ?thesis
    proof (cases res)
      case (Denied m)
      with Inr c assms show ?thesis by (simp add: sendOTP_def)
    next
      case Allowed
      show ?thesis
      proof (cases u)
        case (Inl e)
        then have "fst (storeOTP hashOTP (otpService ms) identifier (generateOTP r)) \<noteq> Inr ()"
          by (simp add: s)
        then have "Option.bind (redisClient svc1) (\<lambda>db. db (rateLimitKey identifier)) =
            Option.bind (redisClient (otpService ms)) (\<lambda>db. db (rateLimitKey identifier))"
          using storeOTP_failed_rate [of hashOTP "otpService ms" "identifier" "generateOTP r"]
          by (simp add: s)
        with Inl Allowed Inr c s assms show ?thesis by (simp add: sendOTP_def)
      next
        case (Inr x)
        with Allowed \<open>c = Inr res\<close> c s show ?thesis by simp
      qed
    qed
  qed
qed

text \<open>
  C7 (the check does not charge). \<^verbatim>\<open>checkRateLimit\<close> returns the service as it found it.
  A request the check denies is answered with the check's message, leaves the whole state
  as it was and reaches no provider. The rate counter of an identifier differs after a
  request only if the check allowed it and \<^verbatim>\<open>storeOTP\<close> returned normally, and a
  verification of the identifier never changes it.
\<close>

theorem checkRateLimit_never_charges:
  "let rate = (\<lambda>svc. Option.bind (redisClient svc) (\<lambda>db. db (rateLimitKey identifier)))
   in snd (checkRateLimit svc identifier) = svc \<and>
      (fst (checkRateLimit (otpService ms) identifier) = Inr (Denied m) \<longrightarrow>
         sendOTP hashOTP r ms ch identifier b =
           (Inr \<lparr>success = False, message = m, data = None\<rparr>, ms, [])) \<and>
      (rate (otpService (fst (snd (sendOTP hashOTP r ms ch identifier b)))) \<noteq> rate (otpService ms) \<longrightarrow>
         fst (checkRateLimit (otpService ms) identifier) = Inr Allowed \<and>
         fst (storeOTP hashOTP (otpService ms) identifier (generateOTP r)) = Inr ()) \<and>
      rate (snd (verifyOTP hashOTP svc identifier otp)) = rate svc"
  unfolding Let_def
  using checkRateLimit_state [of svc "identifier"]
    sendOTP_denied [of ms "identifier" m hashOTP r ch b]
    sendOTP_rate_changed [of hashOTP r ms ch "identifier" b]
    verifyOTP_rate [of hashOTP svc "identifier" otp]
  by blast

theorem checkRateLimit_never_charges_witness:
  "fst (checkRateLimit (otpService (sample_ms (sample_db ''0'' ''3''))) sample_id) =
     Inr (Denied ''Rate limit exceeded. Maximum 3 OTPs per hour.'') \<and>
   snd (checkRateLimit (otpService (sample_ms (sample_db ''0'' ''3''))) sample_id) =
     otpService (sample_ms (sample_db ''0'' ''3'')) \<and>
   sendOTP sample_hash (1 / 2) (sample_ms (sample_db ''0'' ''3'')) SMS sample_id None =
     (Inr \<lparr>success = False, message = ''Rate limit exceeded. Maximum 3 OTPs per hour.'',
           data = None\<rparr>, sample_ms (sample_db ''0'' ''3''), []) \<and>
   Option.bind (redisClient (otpService (fst (snd
       (sendOTP sample_hash (1 / 2) (sample_ms (sample_db ''0'' ''1'')) SMS sample_id None)))))
     (\<lambda>db. db (rateLimitKey sample_id)) \<noteq>
   Option.bind (redisClient (otpService (sample_ms (sample_db ''0'' ''1''))))
     (\<lambda>db. db (rateLimitKey sample_id)) \<and>
   fst (checkRateLimit (otpService (sample_ms (sample_db ''0'' ''1''))) sample_id) = Inr Allowed \<and>
   fst (storeOTP sample_hash (otpService (sample_ms (sample_db ''0'' ''1''))) sample_id
          (generateOTP (1 / 2))) = Inr ()"
proof -
  have r: "redisClient (otpService (sample_ms (sample_db ''0'' ''3''))) = Some (sample_db ''0'' ''3'')"
    by (simp add: sample_ms_def)
  have k: "sample_db ''0'' ''3'' (rateLimitKey sample_id) = Some \<lparr>val = show_nat 3, ttl = Some 3000\<rparr>"
    by (simp add: sample_keys show_nat_small)
  have h: "fst (checkRateLimit (otpService (sample_ms (sample_db ''0'' ''3''))) sample_id) =
     Inr (Denied ''Rate limit exceeded. Maximum 3 OTPs per hour.'')"
    using checkRateLimit_count [OF r k] by simp
  note c = checkRateLimit_never_charges [where svc = "otpService (sample_ms (sample_db ''0'' ''3''))"
      and ms = "sample_ms (sample_db ''0'' ''3'')" and ?identifier = sample_id
      and m = "''Rate limit exceeded. Maximum 3 OTPs per hour.''" and hashOTP = sample_hash
      and r = "1 / 2" and ch = SMS and b = None and otp = "''550000''", unfolded Let_def]
  have r1: "redisClient (otpService (sample_ms (sample_db ''0'' ''1''))) = Some (sample_db ''0'' ''1'')"
    by (simp add: sample_ms_def)
  have k1: "sample_db ''0'' ''1'' (rateLimitKey sample_id) = Some \<lparr>val = show_nat 1, ttl = Some 3000\<rparr>"
    by (simp add: sample_keys show_nat_small)
  have "show_nat (Suc 1) \<noteq> show_nat 1" by (simp add: show_nat_small)
  with sendOTP_next [where hashOTP = sample_hash and r = "1 / 2" and ch = SMS
      and brandName = None, OF r1 k1] r1 k1
  have h': "Option.bind (redisClient (otpService (fst (snd
       (sendOTP sample_hash (1 / 2) (sample_ms (sample_db ''0'' ''1'')) SMS sample_id None)))))
     (\<lambda>db. db (rateLimitKey sample_id)) \<noteq>
   Option.bind (redisClient (otpService (sample_ms (sample_db ''0'' ''1''))))
     (\<lambda>db. db (rateLimitKey sample_id))"
    by simp
  note c' = checkRateLimit_never_charges [where svc = "otpService (sample_ms (sample_db ''0'' ''1''))"
      and ms = "sample_ms (sample_db ''0'' ''1'')" and ?identifier = sample_id
      and m = "[]" and hashOTP = sample_hash
      and r = "1 / 2" and ch = SMS and b = None and otp = "''550000''", unfolded Let_def]
  from h c h' c' show ?thesis by blast
qed

section \<open>Delivery outcome and key layout\<close>

text \<open>
  C9 (delivery outcome), as the code does it. A request that passes the check and whose
  code is stored calls the provider of the requested channel exactly once and no other
  provider. A failed outcome is returned as the provider gave it; a successful outcome is
  returned with the same success flag, but with the message "OTP sent successfully via
  <channel>" in place of the provider's and without the provider's data.
\<close>

theorem sendOTP_delivery_outcome:
  assumes "fst (checkRateLimit (otpService ms) identifier) = Inr Allowed"
      and "storeOTP hashOTP (otpService ms) identifier (generateOTP r) = (Inr (), svc1)"
  shows "(sms_activeProvider (smsService ms) = Some sp \<longrightarrow>
            sendOTP hashOTP r ms SMS identifier brandName =
              (Inr (if success (sms_sendOTP sp identifier (generateOTP r))
                    then \<lparr>success = True, message = ''OTP sent successfully via sms'',
                          data = None\<rparr>
                    else sms_sendOTP sp identifier (generateOTP r)),
               ms\<lparr>otpService := svc1\<rparr>, [SmsCall identifier (generateOTP r)])) \<and>
         (email_activeProvider (emailService ms) = Some ep \<longrightarrow>
            sendOTP hashOTP r ms Email identifier brandName =
              (Inr (if success (email_sendOTP ep identifier (generateOTP r) brandName)
                    then \<lparr>success = True, message = ''OTP sent successfully via email'',
                          data = None\<rparr>
                    else email_sendOTP ep identifier (generateOTP r) brandName),
               ms\<lparr>otpService := svc1\<rparr>, [EmailCall identifier (generateOTP r) brandName]))"
  unfolding sendOTP_allowed [OF assms]
  by (simp add: SMSService_sendOTP_def EmailService_sendOTP_def)

theorem sendOTP_delivery_outcome_witness:
  "fst (checkRateLimit (otpService (sample_ms (sample_db ''0'' ''1''))) sample_id) = Inr Allowed \<and>
   storeOTP sample_hash (otpService (sample_ms (sample_db ''0'' ''1''))) sample_id (generateOTP (1 / 2)) =
     (Inr (), snd (storeOTP sample_hash (otpService (sample_ms (sample_db ''0'' ''1''))) sample_id
        (generateOTP (1 / 2)))) \<and>
   sms_activeProvider (smsService (sample_ms (sample_db ''0'' ''1''))) = Some sample_sms \<and>
   email_activeProvider (emailService (sample_ms (sample_db ''0'' ''1''))) = Some sample_smtp \<and>
   fst (sendOTP sample_hash (1 / 2) (sample_ms (sample_db ''0'' ''1'')) SMS sample_id None) =
     Inr \<lparr>success = True, message = ''OTP sent successfully via sms'', data = None\<rparr> \<and>
   snd (snd (sendOTP sample_hash (1 / 2) (sample_ms (sample_db ''0'' ''1'')) SMS sample_id None)) =
     [SmsCall sample_id (generateOTP (1 / 2))] \<and>
   fst (sendOTP sample_hash (1 / 2) (sample_ms (sample_db ''0'' ''1'')) Email sample_id None) =
     Inr \<lparr>success = False, message = ''SMTP Error: connection refused'', data = None\<rparr> \<and>
   snd (snd (sendOTP sample_hash (1 / 2) (sample_ms (sample_db ''0'' ''1'')) Email sample_id None)) =
     [EmailCall sample_id (generateOTP (1 / 2)) None]"
proof -
  let ?ms = "sample_ms (sample_db ''0'' ''1'')"
  have r1: "redisClient (otpService ?ms) = Some (sample_db ''0'' ''1'')"
    by (simp add: sample_ms_def)
  have k1: "sample_db ''0'' ''1'' (rateLimitKey sample_id) = Some \<lparr>val = show_nat 1, ttl = Some 3000\<rparr>"
    by (simp add: sample_keys show_nat_small)
  have h1: "fst (checkRateLimit (otpService ?ms) sample_id) = Inr Allowed"
    using checkRateLimit_count [OF r1 k1] by simp
  have h2: "storeOTP sample_hash (otpService ?ms) sample_id (generateOTP (1 / 2)) =
     (Inr (), snd (storeOTP sample_hash (otpService ?ms) sample_id (generateOTP (1 / 2))))"
    using storeOTP_count [where hashOTP = sample_hash and otp = "generateOTP (1 / 2)", OF r1 k1]
    by simp
  have p1: "sms_activeProvider (smsService ?ms) = Some sample_sms" by (simp add: sample_ms_def)
  have p2: "email_activeProvider (emailService ?ms) = Some sample_smtp"
    by (simp add: sample_ms_def)
  note c = sendOTP_delivery_outcome [where hashOTP = sample_hash and sp = sample_sms
      and ep = sample_smtp and brandName = None, OF h1 h2]
  from c p1 have "sendOTP sample_hash (1 / 2) ?ms SMS sample_id None =
      (Inr (if success (sms_sendOTP sample_sms sample_id (generateOTP (1 / 2)))
            then \<lparr>success = True, message = ''OTP sent successfully via sms'', data = None\<rparr>
            else sms_sendOTP sample_sms sample_id (generateOTP (1 / 2))),
       ?ms\<lparr>otpService := snd (storeOTP sample_hash (otpService ?ms) sample_id
          (generateOTP (1 / 2)))\<rparr>, [SmsCall sample_id (generateOTP (1 / 2))])"
    by blast
  then have a: "fst (sendOTP sample_hash (1 / 2) ?ms SMS sample_id None) =
       Inr \<lparr>success = True, message = ''OTP sent successfully via sms'', data = None\<rparr>"
    and a': "snd (snd (sendOTP sample_hash (1 / 2) ?ms SMS sample_id None)) =
       [SmsCall sample_id (generateOTP (1 / 2))]"
    by (simp_all add: sample_sms_def)
  from c p2 have "sendOTP sample_hash (1 / 2) ?ms Email sample_id None =
      (Inr (if success (email_sendOTP sample_smtp sample_id (generateOTP (1 / 2)) None)
            then \<lparr>success = True, message = ''OTP sent successfully via email'', data = None\<rparr>
            else email_sendOTP sample_smtp sample_id (generateOTP (1 / 2)) None),
       ?ms\<lparr>otpService := snd (storeOTP sample_hash (otpService ?ms) sample_id
          (generateOTP (1 / 2)))\<rparr>, [EmailCall sample_id (generateOTP (1 / 2)) None])"
    by blast
  then have b: "fst (sendOTP sample_hash (1 / 2) ?ms Email sample_id None) =
       Inr \<lparr>success = False, message = ''SMTP Error: connection refused'', data = None\<rparr>"
    and b': "snd (snd (sendOTP sample_hash (1 / 2) ?ms Email sample_id None)) =
       [EmailCall sample_id (generateOTP (1 / 2)) None]"
    by (simp_all add: sample_smtp_def)
  from h1 h2 p1 p2 a a' b b' show ?thesis by blast
qed

theorem sendOTP_verbatim_counterexample:
  "sms_sendOTP sample_sms sample_id (generateOTP (1 / 2)) =
     \<lparr>success = True, message = ''SMS sent successfully via Hubtel'', data = Some ''{}''\<rparr> \<and>
   fst (sendOTP sample_hash (1 / 2) (sample_ms (sample_db ''0'' ''1'')) SMS sample_id None) =
     Inr \<lparr>success = True, message = ''OTP sent successfully via sms'', data = None\<rparr> \<and>
   fst (sendOTP sample_hash (1 / 2) (sample_ms (sample_db ''0'' ''1'')) SMS sample_id None) \<noteq>
     Inr (sms_sendOTP sample_sms sample_id (generateOTP (1 / 2)))"
proof -
  let ?ms = "sample_ms (sample_db ''0'' ''1'')"
  have r1: "redisClient (otpService ?ms) = Some (sample_db ''0'' ''1'')"
    by (simp add: sample_ms_def)
  have k1: "sample_db ''0'' ''1'' (rateLimitKey sample_id) = Some \<lparr>val = show_nat 1, ttl = Some 3000\<rparr>"
    by (simp add: sample_keys show_nat_small)
  have h1: "fst (checkRateLimit (otpService ?ms) sample_id) = Inr Allowed"
    using checkRateLimit_count [OF r1 k1] by simp
  have h2: "storeOTP sample_hash (otpService ?ms) sample_id (generateOTP (1 / 2)) =
     (Inr (), snd (storeOTP sample_hash (otpService ?ms) sample_id (generateOTP (1 / 2))))"
    using storeOTP_count [where hashOTP = sample_hash and otp = "generateOTP (1 / 2)", OF r1 k1]
    by simp
  have p: "sms_sendOTP sample_sms sample_id (generateOTP (1 / 2)) =
     \<lparr>success = True, message = ''SMS sent successfully via Hubtel'', data = Some ''{}''\<rparr>"
    by (simp add: sample_sms_def)
  have e: "fst (sendOTP sample_hash (1 / 2) ?ms SMS sample_id None) =
     Inr \<lparr>success = True, message = ''OTP sent successfully via sms'', data = None\<rparr>"
    unfolding sendOTP_allowed [OF h1 h2]
    by (simp add: SMSService_sendOTP_def sample_ms_def sample_sms_def)
  have "fst (sendOTP sample_hash (1 / 2) ?ms SMS sample_id None) \<noteq>
     Inr (sms_sendOTP sample_sms sample_id (generateOTP (1 / 2)))"
    unfolding e p by simp
  with p e show ?thesis by blast
qed

text \<open>
  C8 (key layout), as the code does it. The three keys of one identifier are pairwise
  distinct and each kind of key determines its identifier. Attempt keys and rate keys start
  with \<^verbatim>\<open>otp:attempts:\<close> and \<^verbatim>\<open>otp:ratelimit:\<close>, and neither prefix covers a key of the other
  kind. The prefix \<^verbatim>\<open>otp:\<close> of the code records covers all three kinds: a code-record key is
  an attempt key or a rate key exactly when its identifier starts with \<^verbatim>\<open>attempts:\<close> or
  \<^verbatim>\<open>ratelimit:\<close>.
\<close>

theorem key_layout:
  "otpKey a \<noteq> attemptsKey a \<and> otpKey a \<noteq> rateLimitKey a \<and> attemptsKey a \<noteq> rateLimitKey b \<and>
   (otpKey a = otpKey b \<longleftrightarrow> a = b) \<and>
   (attemptsKey a = attemptsKey b \<longleftrightarrow> a = b) \<and>
   (rateLimitKey a = rateLimitKey b \<longleftrightarrow> a = b) \<and>
   prefix ''otp:attempts:'' (attemptsKey a) \<and> \<not> prefix ''otp:attempts:'' (rateLimitKey b) \<and>
   prefix ''otp:ratelimit:'' (rateLimitKey a) \<and> \<not> prefix ''otp:ratelimit:'' (attemptsKey b) \<and>
   prefix ''otp:'' (otpKey a) \<and> prefix ''otp:'' (attemptsKey a) \<and> prefix ''otp:'' (rateLimitKey a) \<and>
   (otpKey a = attemptsKey b \<longleftrightarrow> a = ''attempts:'' @ b) \<and>
   (otpKey a = rateLimitKey b \<longleftrightarrow> a = ''ratelimit:'' @ b)"
proof -
  have "prefix ''otp:attempts:'' (attemptsKey a)" "\<not> prefix ''otp:attempts:'' (rateLimitKey b)"
    "prefix ''otp:ratelimit:'' (rateLimitKey a)" "\<not> prefix ''otp:ratelimit:'' (attemptsKey b)"
    "prefix ''otp:'' (otpKey a)" "prefix ''otp:'' (attemptsKey a)" "prefix ''otp:'' (rateLimitKey a)"
    by (simp_all add: otpKey_def attemptsKey_def rateLimitKey_def)
  moreover have "otpKey a = attemptsKey b \<longleftrightarrow> a = ''attempts:'' @ b"
    "otpKey a = rateLimitKey b \<longleftrightarrow> a = ''ratelimit:'' @ b"
    by (simp_all add: otpKey_def attemptsKey_def rateLimitKey_def)
  ultimately show ?thesis
    using otpKey_neq_attemptsKey [of a] otpKey_neq_rateLimitKey [of a]
      attemptsKey_neq_rateLimitKey [of a b] otpKey_inj [of a b] attemptsKey_inj [of a b]
      rateLimitKey_inj [of a b]
    by blast
qed

theorem key_namespace_counterexample:
  "otpKey ''attempts:a@b.co'' = attemptsKey ''a@b.co'' \<and>
   otpKey ''ratelimit:a@b.co'' = rateLimitKey ''a@b.co'' \<and>
   prefix ''otp:'' (attemptsKey ''a@b.co'') \<and> prefix ''otp:'' (rateLimitKey ''a@b.co'')"
  by (simp add: otpKey_def attemptsKey_def rateLimitKey_def)

end
